theory Spec2Isabelle
  imports Complex_Main "HOL-Library.Sublist"
begin

section \<open>Python strings\<close>

text \<open>
  A Python \<open>str\<close> is a sequence of code points. The model uses \<^typ>\<open>string\<close>, whose
  characters are the code points U+0000 to U+00FF (Latin-1, which holds the German
  letters of the payslips). On these code points \<open>str.lower\<close> acts character by
  character, and \<open>str.strip\<close>, \<open>str.split\<close> and the regular expression class
  \<open>\s\<close> use the same notion of white space.
\<close>

definition whitespace_chars :: "char list" where
  "whitespace_chars =
     [CHR 0x09, CHR 0x0A, CHR 0x0B, CHR 0x0C, CHR 0x0D, CHR 0x1C, CHR 0x1D, CHR 0x1E,
      CHR 0x1F, CHR 0x20, CHR 0x85, CHR 0xA0]"

definition py_isspace :: "char \<Rightarrow> bool" where
  "py_isspace c = (c \<in> set whitespace_chars)"

definition upper_letters :: "char list" where
  "upper_letters = ''ABCDEFGHIJKLMNOPQRSTUVWXYZ'' @
     [CHR 0xC0, CHR 0xC1, CHR 0xC2, CHR 0xC3, CHR 0xC4, CHR 0xC5, CHR 0xC6, CHR 0xC7,
      CHR 0xC8, CHR 0xC9, CHR 0xCA, CHR 0xCB, CHR 0xCC, CHR 0xCD, CHR 0xCE, CHR 0xCF,
      CHR 0xD0, CHR 0xD1, CHR 0xD2, CHR 0xD3, CHR 0xD4, CHR 0xD5, CHR 0xD6,
      CHR 0xD8, CHR 0xD9, CHR 0xDA, CHR 0xDB, CHR 0xDC, CHR 0xDD, CHR 0xDE]"

definition lower_letters :: "char list" where
  "lower_letters = ''abcdefghijklmnopqrstuvwxyz'' @
     [CHR 0xE0, CHR 0xE1, CHR 0xE2, CHR 0xE3, CHR 0xE4, CHR 0xE5, CHR 0xE6, CHR 0xE7,
      CHR 0xE8, CHR 0xE9, CHR 0xEA, CHR 0xEB, CHR 0xEC, CHR 0xED, CHR 0xEE, CHR 0xEF,
      CHR 0xF0, CHR 0xF1, CHR 0xF2, CHR 0xF3, CHR 0xF4, CHR 0xF5, CHR 0xF6,
      CHR 0xF8, CHR 0xF9, CHR 0xFA, CHR 0xFB, CHR 0xFC, CHR 0xFD, CHR 0xFE]"

text \<open>The pairs (capital letter, small letter) of Latin-1.\<close>

definition case_pairs :: "(char \<times> char) list" where
  "case_pairs = zip upper_letters lower_letters"

definition lower_char :: "char \<Rightarrow> char" where
  "lower_char c = (case map_of case_pairs c of None \<Rightarrow> c | Some l \<Rightarrow> l)"


text \<open>\<open>s.lower()\<close>\<close>

definition py_lower :: "string \<Rightarrow> string" where
  "py_lower s = map lower_char s"

text \<open>\<open>s.strip()\<close>: white space removed at both ends.\<close>

definition py_strip :: "string \<Rightarrow> string" where
  "py_strip s = rev (dropWhile py_isspace (rev (dropWhile py_isspace s)))"

text \<open>
  \<open>s.split()\<close>: the maximal runs of characters that are not white space, in order.
  \<open>cur\<close> is the run being read.
\<close>

fun split_from :: "string \<Rightarrow> string \<Rightarrow> string list" where
  "split_from cur [] = (if cur = [] then [] else [cur])"
| "split_from cur (c # cs) =
     (if py_isspace c then (if cur = [] then split_from [] cs else cur # split_from [] cs)
      else split_from (cur @ [c]) cs)"

definition py_split :: "string \<Rightarrow> string list" where
  "py_split s = split_from [] s"

text \<open>\<open>sub in s\<close>: \<open>sub\<close> occurs in \<open>s\<close> as a contiguous block.\<close>

fun py_in :: "string \<Rightarrow> string \<Rightarrow> bool" where
  "py_in sub [] = (sub = [])"
| "py_in sub (c # cs) = (prefix sub (c # cs) \<or> py_in sub cs)"

text \<open>\<open>str(n)\<close> for an integer: decimal digits, with a minus sign when negative.\<close>

definition digit_char :: "int \<Rightarrow> char" where
  "digit_char d = ''0123456789'' ! nat d"

function str_nonneg :: "int \<Rightarrow> string" where
  "str_nonneg n =
     (if n < 10 then [digit_char n] else str_nonneg (n div 10) @ [digit_char (n mod 10)])"
  by pat_completeness auto
termination
  by (relation "measure nat") auto

declare str_nonneg.simps [simp del]

definition str_int :: "int \<Rightarrow> string" where
  "str_int i = (if i < 0 then CHR ''-'' # str_nonneg (- i) else str_nonneg i)"

text \<open>
  \<open>s.encode()\<close>: UTF-8. A code point below U+0080 is one byte, the others of Latin-1 are
  two bytes, \<open>0xC2\<close> or \<open>0xC3\<close> and then the low six bits under \<open>0x80\<close>.
\<close>

definition utf8_char :: "char \<Rightarrow> char list" where
  "utf8_char c =
     (let n = (of_char c :: int)
      in if n < 128 then [c]
         else [char_of (192 + n div 64), char_of (128 + n mod 64)])"

definition py_encode :: "string \<Rightarrow> char list" where
  "py_encode s = concat (map utf8_char s)"


text \<open>The errors the modelled code can raise.\<close>

datatype exn =
    QontoConfigError
  | QontoOAuthError
  | ReqConnectionError
  | ReqTimeout
  | ReqOther
  | ValueError
  | OverflowError
  | IndexError
  | OtherError


section \<open>Regular expressions (the part of \<open>re\<close> the amount patterns use)\<close>

datatype cls = Digit | Space | Word | NotNewline | AnyOf string

definition digit_chars :: "char list" where
  "digit_chars = ''0123456789''"

text \<open>
  The characters of \<open>\w\<close> that are neither a decimal digit nor one of the paired
  letters: the underscore, the letters without a Latin-1 capital, and the superscripts
  and fractions, which \<open>str.isalnum\<close> accepts.
\<close>

definition word_extra :: "char list" where
  "word_extra = [CHR ''_'', CHR 0xAA, CHR 0xB2, CHR 0xB3, CHR 0xB5, CHR 0xB9, CHR 0xBA,
     CHR 0xBC, CHR 0xBD, CHR 0xBE, CHR 0xDF, CHR 0xFF]"

fun in_cls :: "cls \<Rightarrow> char \<Rightarrow> bool" where
  "in_cls Digit c = (c \<in> set digit_chars)"
| "in_cls Space c = py_isspace c"
| "in_cls Word c = (c \<in> set digit_chars \<or> c \<in> set upper_letters \<or> c \<in> set lower_letters
     \<or> c \<in> set word_extra)"
| "in_cls NotNewline c = (c \<noteq> CHR 0x0A)"
| "in_cls (AnyOf cs) c = (c \<in> set cs)"

text \<open>
  \<open>Lit\<close> is a literal character, \<open>LitI\<close> one under the flag \<open>(?i)\<close>; \<open>Never\<close> stands
  for a literal outside Latin-1 (the euro sign of the patterns), which no character of a
  modelled text equals. \<open>Repeat r lo hi\<close> is \<open>r{lo,hi}\<close> (so \<open>r?\<close> is
  \<open>Repeat r 0 1\<close>), \<open>Star r\<close> is \<open>r*\<close>, both greedy. \<open>Grp\<close> is capture group 1,
  \<open>NotBehind k\<close> the negative look-behind \<open>(?<!k)\<close> of a one-character class.
\<close>

datatype rx =
    Eps
  | Lit char
  | LitI char
  | Cls cls
  | Never
  | Seq rx rx
  | Alt rx rx
  | Repeat rx nat nat
  | Star rx
  | Grp rx
  | NotBehind cls

text \<open>
  The state of a match attempt: the character before the current position, the text of
  group 1 if it has been closed, and the text still to read.
\<close>

record mstate =
  prev :: "char option"
  grp1 :: "string option"
  rest :: string

definition step_char :: "(char \<Rightarrow> bool) \<Rightarrow> mstate \<Rightarrow> mstate list" where
  "step_char P st =
     (case rest st of
        [] \<Rightarrow> []
      | c # cs \<Rightarrow> if P c then [st\<lparr>prev := Some c, rest := cs\<rparr>] else [])"

text \<open>
  The backtracking matcher: all the ways \<open>r\<close> matches at the current position, in the
  order in which the engine tries them (the first alternative first, the longest
  repetition first). An iteration of \<open>r*\<close> that reads nothing is not repeated.
\<close>

function rx_match :: "rx \<Rightarrow> mstate \<Rightarrow> mstate list" where
  "rx_match Eps st = [st]"
| "rx_match (Lit p) st = step_char (\<lambda>c. c = p) st"
| "rx_match (LitI p) st = step_char (\<lambda>c. lower_char c = lower_char p) st"
| "rx_match (Cls k) st = step_char (in_cls k) st"
| "rx_match Never st = []"
| "rx_match (Seq a b) st = concat (map (rx_match b) (rx_match a st))"
| "rx_match (Alt a b) st = rx_match a st @ rx_match b st"
| "rx_match (Repeat r lo hi) st =
     (if hi = 0 then [st]
      else concat (map (rx_match (Repeat r (lo - 1) (hi - 1))) (rx_match r st))
           @ (if lo = 0 then [st] else []))"
| "rx_match (Star r) st =
     concat (map (\<lambda>st'. if length (rest st') < length (rest st) then rx_match (Star r) st' else [])
                 (rx_match r st))
     @ [st]"
| "rx_match (Grp r) st =
     map (\<lambda>st'. st'\<lparr>grp1 := Some (take (length (rest st) - length (rest st')) (rest st))\<rparr>)
         (rx_match r st)"
| "rx_match (NotBehind k) st =
     (case prev st of None \<Rightarrow> [st] | Some c \<Rightarrow> if in_cls k c then [] else [st])"
  by pat_completeness auto
termination
  apply (relation "inv_image (less_than <*lex*> less_than <*lex*> less_than)
     (\<lambda>(r, st). (size r, (case r of Repeat _ _ hi \<Rightarrow> hi | _ \<Rightarrow> 0), length (rest st)))")
  apply auto
  done

text \<open>
  \<open>pattern.search(text)\<close> followed by \<open>match.group(1)\<close>: the leftmost position at which
  the pattern matches, and there the first way it matches. \<open>None\<close> is no match.
\<close>

fun search_from :: "rx \<Rightarrow> char option \<Rightarrow> string \<Rightarrow> string option" where
  "search_from r p [] =
     (case rx_match r \<lparr>prev = p, grp1 = None, rest = []\<rparr> of
        [] \<Rightarrow> None | st # _ \<Rightarrow> Some (case grp1 st of None \<Rightarrow> [] | Some g \<Rightarrow> g))"
| "search_from r p (c # cs) =
     (case rx_match r \<lparr>prev = p, grp1 = None, rest = c # cs\<rparr> of
        [] \<Rightarrow> search_from r (Some c) cs
      | st # _ \<Rightarrow> Some (case grp1 st of None \<Rightarrow> [] | Some g \<Rightarrow> g))"

definition rx_search :: "rx \<Rightarrow> string \<Rightarrow> string option" where
  "rx_search r s = search_from r None s"

fun seqs :: "rx list \<Rightarrow> rx" where
  "seqs [] = Eps"
| "seqs [r] = r"
| "seqs (r # rs) = Seq r (seqs rs)"

text \<open>A literal string, under \<open>(?i)\<close> when \<open>ci\<close>.\<close>

definition str_rx :: "bool \<Rightarrow> string \<Rightarrow> rx" where
  "str_rx ci s = seqs (map (\<lambda>c. if ci then LitI c else Lit c) s)"


section \<open>Amounts and names on a page (\<open>skills/payroll/pdf_processor.py\<close>)\<close>

text \<open>\<open>_SEP = \s*[:\-=]?\s*\<close>\<close>

definition SEP :: rx where
  "SEP = seqs [Star (Cls Space), Repeat (Cls (AnyOf '':-='')) 0 1, Star (Cls Space)]"

text \<open>\<open>_AMT = (\d{1,3}(?:\.\d{3})*,\d{2})\<close>\<close>

definition AMT :: rx where
  "AMT = Grp (seqs [Repeat (Cls Digit) 1 3,
                    Star (Seq (Lit CHR ''.'') (Repeat (Cls Digit) 3 3)),
                    Lit CHR '','',
                    Repeat (Cls Digit) 2 2])"

text \<open>\<open>_EUR = (?:(?:EUR|\<euro>)\s*)?\<close>, always used under \<open>(?i)\<close>.\<close>

definition EUR :: rx where
  "EUR = Repeat (Seq (Alt (str_rx True ''EUR'') Never) (Star (Cls Space))) 0 1"

text \<open>The patterns \<open>(?i)label{_SEP}{_EUR}{_AMT}\<close>.\<close>

definition labelled :: "rx \<Rightarrow> rx" where
  "labelled l = seqs [l, SEP, EUR, AMT]"

definition AMOUNT_PATTERNS :: "rx list" where
  "AMOUNT_PATTERNS =
     [seqs [str_rx True ''auszahlungsbetrag'', Star (Cls Space), Lit CHR 0x0A,
            Star (Cls NotNewline), NotBehind Digit, NotBehind (AnyOf ''.''), AMT],
      labelled (str_rx True ''auszahlungsbetrag''),
      labelled (str_rx True ''nettolohn''),
      labelled (str_rx True ''nettogehalt''),
      labelled (str_rx True ''netto''),
      labelled (Seq (str_rx True (CHR 0xFC # ''berweisung'')) (Star (Cls Word))),
      labelled (str_rx True ''zahlbetrag''),
      labelled (str_rx True ''betrag''),
      seqs [AMT, Star (Cls Space), Alt (str_rx False ''EUR'') Never]]"

subsection \<open>\<open>_german_amount_to_cents\<close>\<close>

text \<open>
  The source computes \<open>round(float(s) * 100)\<close> in binary64 arithmetic. The model follows
  it exactly: a finite double that is not negative is the fraction \<open>(n, d)\<close>, and
  \<open>to_binary64 a b\<close> is the double nearest to \<open>a / b\<close>, ties to the even significand
  of 53 bits, \<open>None\<close> when that is infinite.
\<close>

function bitlen :: "int \<Rightarrow> nat" where
  "bitlen n = (if n \<le> 0 then 0 else Suc (bitlen (n div 2)))"
  by pat_completeness auto
termination
  by (relation "measure nat") auto

declare bitlen.simps [simp del]

definition round_half_even_div :: "int \<Rightarrow> int \<Rightarrow> int" where
  "round_half_even_div a b =
     (let q = a div b; r = a mod b
      in if 2 * r < b then q else if b < 2 * r then q + 1 else if even q then q else q + 1)"

definition to_binary64 :: "int \<Rightarrow> int \<Rightarrow> (int \<times> int) option" where
  "to_binary64 a b =
     (if a = 0 then Some (0, 1)
      else
        let e0 = int (bitlen a) - int (bitlen b) - 53;
            e1 = (if 2 ^ 53 * b * 2 ^ nat e0 \<le> a * 2 ^ nat (- e0) then e0 + 1 else e0);
            e = max e1 (- 1074);
            m = round_half_even_div (a * 2 ^ nat (- e)) (b * 2 ^ nat e)
        in if 2 ^ 1024 \<le> m * 2 ^ nat e then None
           else Some (m * 2 ^ nat e, 2 ^ nat (- e)))"

definition digits_value :: "string \<Rightarrow> int" where
  "digits_value ds = foldl (\<lambda>n c. 10 * n + (of_char c - of_char CHR ''0'')) 0 ds"

text \<open>
  \<open>float(t)\<close> for a text of decimal digits and at most one point, written here with the
  comma still in place of the point: the value as a fraction, \<open>None\<close> where \<open>float\<close>
  raises \<open>ValueError\<close> (no digit, a second point). Group 1 of an amount pattern holds
  only digits, points and one comma.
\<close>

definition parse_decimal :: "string \<Rightarrow> (int \<times> int) option" where
  "parse_decimal t =
     (let ip = takeWhile (\<lambda>c. c \<noteq> CHR '','') t;
          fp = drop 1 (dropWhile (\<lambda>c. c \<noteq> CHR '','') t)
      in if ip @ fp \<noteq> [] \<and> list_all (in_cls Digit) (ip @ fp)
         then Some (digits_value (ip @ fp), 10 ^ length fp) else None)"

definition german_amount_to_cents :: "string \<Rightarrow> exn + int" where
  "german_amount_to_cents amount_str =
     (case parse_decimal (filter (\<lambda>c. c \<noteq> CHR ''.'') amount_str) of
        None \<Rightarrow> Inl ValueError
      | Some (a, b) \<Rightarrow>
          (case to_binary64 a b of
             None \<Rightarrow> Inl OverflowError
           | Some (n, d) \<Rightarrow>
               (case to_binary64 (n * 100) d of
                  None \<Rightarrow> Inl OverflowError
                | Some (n', d') \<Rightarrow> Inr (round_half_even_div n' d'))))"

subsection \<open>\<open>_extract_amount\<close>\<close>

text \<open>
  The loop over the patterns: the first match of a pattern is converted; a result above
  zero is returned, a result of zero or a \<open>ValueError\<close>/\<open>OverflowError\<close> moves on to
  the next pattern.
\<close>

fun extract_amount_from :: "rx list \<Rightarrow> string \<Rightarrow> exn + int" where
  "extract_amount_from [] text = Inr 0"
| "extract_amount_from (pattern # patterns) text =
     (case rx_search pattern text of
        None \<Rightarrow> extract_amount_from patterns text
      | Some g \<Rightarrow>
          (case german_amount_to_cents g of
             Inr cents \<Rightarrow> if cents > 0 then Inr cents else extract_amount_from patterns text
           | Inl e \<Rightarrow>
               if e = ValueError \<or> e = OverflowError then extract_amount_from patterns text
               else Inl e))"

definition extract_amount :: "string \<Rightarrow> exn + int" where
  "extract_amount text = extract_amount_from AMOUNT_PATTERNS text"

text \<open>
  For the statement of the result: the amount a pattern reads from a text, which is the
  conversion of group 1 of its first match (\<open>None\<close> without a match or when the
  conversion raises), and the first value above zero of a list (zero if there is none).
\<close>

definition pattern_value :: "rx \<Rightarrow> string \<Rightarrow> int option" where
  "pattern_value p text =
     (case rx_search p text of
        None \<Rightarrow> None
      | Some g \<Rightarrow> (case german_amount_to_cents g of Inl _ \<Rightarrow> None | Inr c \<Rightarrow> Some c))"

definition first_positive :: "int list \<Rightarrow> int" where
  "first_positive cs = (case filter (\<lambda>c. 0 < c) cs of [] \<Rightarrow> 0 | c # _ \<Rightarrow> c)"


subsection \<open>\<open>_score_name_match\<close>\<close>

text \<open>
  The scores are the float literals \<open>1.0\<close>, \<open>0.7\<close>, \<open>0.4\<close>, \<open>0.2\<close> and
  \<open>0.0\<close>; the code only compares them with each other, so they are modelled as
  rationals. \<open>parts[0]\<close> raises \<open>IndexError\<close> on an empty list.
\<close>

definition score_name_match :: "string \<Rightarrow> string \<Rightarrow> exn + rat" where
  "score_name_match text nm =
     (let text_lower = py_lower text;
          name_lower = py_strip (py_lower nm)
      in if py_in name_lower text_lower then Inr 1
         else
           let parts = py_split name_lower
           in if length parts < 2 then
                (case parts of
                   [] \<Rightarrow> Inl IndexError
                 | p # _ \<Rightarrow> Inr (if py_in p text_lower then 1 else 0))
              else if list_all (\<lambda>part. py_in part text_lower) parts then Inr (7 / 10)
              else if py_in (last parts) text_lower then Inr (4 / 10)
              else if py_in (hd parts) text_lower then Inr (2 / 10)
              else Inr 0)"

text \<open>
  For the statements: the tokens of a name as the function splits them, and the score as
  a number.
\<close>

definition name_tokens :: "string \<Rightarrow> string list" where
  "name_tokens nm = py_split (py_strip (py_lower nm))"

definition score_of :: "string \<Rightarrow> string \<Rightarrow> rat" where
  "score_of text nm = (case score_name_match text nm of Inl _ \<Rightarrow> 0 | Inr s \<Rightarrow> s)"

subsection \<open>\<open>process_pdf\<close>\<close>

text \<open>The dataclass \<open>Employee\<close> of \<open>csv_parser.py\<close>.\<close>

record employee =
  name :: string
  iban :: string
  iban_masked :: string
  target_dir :: string
  page_index :: int
  emp_amount_cents :: int
  pdf_saved :: bool

text \<open>
  A page as the code sees it: the text \<open>_extract_text\<close> returns (empty when the
  extraction fails), and whether writing the page to its output file succeeds
  (otherwise \<open>OSError\<close>). \<open>None\<close> for the document is a file \<open>PdfReader\<close> cannot open.
\<close>

record page =
  page_text :: string
  write_ok :: bool

datatype pdf_error = CannotOpen | SaveFailed nat string

text \<open>\<open>ProcessingResult\<close>; a saved file is the directory and the file name.\<close>

record processing_result =
  saved_files :: "(string \<times> string) list"
  unmatched_pages :: "nat list"
  errors :: "pdf_error list"

definition upper_char :: "char \<Rightarrow> char" where
  "upper_char c = (case map_of (zip lower_letters upper_letters) c of None \<Rightarrow> c | Some u \<Rightarrow> u)"

text \<open>
  \<open>s.upper()\<close>. Python maps three letters of Latin-1 (sharp s, micro sign, y with
  diaeresis) to text outside Latin-1; the model leaves them as they are. The result is
  only used in the name of the saved file.
\<close>

definition py_upper :: "string \<Rightarrow> string" where
  "py_upper s = map upper_char s"

text \<open>\<open>_make_filename\<close>: \<open>YYYYMM_\<close> and three initials; \<open>parts[0]\<close> can raise.\<close>

definition make_filename :: "string \<Rightarrow> string \<Rightarrow> exn + string" where
  "make_filename nm per =
     (let period_compact = filter (\<lambda>c. c \<noteq> CHR ''-'') per;
          parts = py_split (py_strip nm)
      in case parts of
           [] \<Rightarrow> Inl IndexError
         | first # _ \<Rightarrow>
             let lst = (if length parts > 1 then last parts else first)
             in Inr (period_compact @ ''_'' @ py_upper (take 1 first @ take 2 lst)))"

text \<open>
  The inner loop \<open>for emp in employees\<close>: the best score so far and the position of the
  employee that reached it (\<open>None\<close> at the start); only a strictly higher score replaces
  it, so the first of several equal scores wins.
\<close>

fun best_match_from ::
  "string \<Rightarrow> employee list \<Rightarrow> nat \<Rightarrow> rat \<Rightarrow> nat option \<Rightarrow> exn + (rat \<times> nat option)" where
  "best_match_from text [] i best_score best_emp = Inr (best_score, best_emp)"
| "best_match_from text (emp # emps) i best_score best_emp =
     (case score_name_match text (name emp) of
        Inl e \<Rightarrow> Inl e
      | Inr score \<Rightarrow>
          if score > best_score then best_match_from text emps (Suc i) score (Some i)
          else best_match_from text emps (Suc i) best_score best_emp)"

definition best_match :: "string \<Rightarrow> employee list \<Rightarrow> exn + (rat \<times> nat option)" where
  "best_match text employees = best_match_from text employees 0 0 None"

text \<open>
  The body of the loop over the pages, for page \<open>idx\<close> (from 0). The employees are
  objects that the loop updates in place: the model updates the list at the position of
  the best employee.
\<close>

definition process_page ::
  "string \<Rightarrow> string list \<Rightarrow> nat \<Rightarrow> page \<Rightarrow> employee list \<times> processing_result \<Rightarrow>
   exn + (employee list \<times> processing_result)" where
  "process_page per skip_save idx pg st =
     (let (employees, result) = st; text = page_text pg
      in case extract_amount text of
           Inl e \<Rightarrow> Inl e
         | Inr amount \<Rightarrow>
         (case best_match text employees of
           Inl e \<Rightarrow> Inl e
         | Inr (best_score, best_emp) \<Rightarrow>
             (case best_emp of
                None \<Rightarrow>
                  Inr (employees, result\<lparr>unmatched_pages := unmatched_pages result @ [idx + 1]\<rparr>)
              | Some i \<Rightarrow>
                  if best_score < 4 / 10 then
                    Inr (employees, result\<lparr>unmatched_pages := unmatched_pages result @ [idx + 1]\<rparr>)
                  else
                    let emp = (employees ! i)\<lparr>page_index := int idx, emp_amount_cents := amount\<rparr>;
                        employees1 = employees[i := emp]
                    in if name emp \<in> set skip_save then Inr (employees1, result)
                       else
                         (case make_filename (name emp) per of
                            Inl e \<Rightarrow> Inl e
                          | Inr fname \<Rightarrow>
                              if write_ok pg then
                                Inr (employees1[i := emp\<lparr>pdf_saved := True\<rparr>],
                                     result\<lparr>saved_files := saved_files result
                                               @ [(target_dir emp, fname @ ''.pdf'')]\<rparr>)
                              else
                                Inr (employees1,
                                     result\<lparr>errors := errors result
                                               @ [SaveFailed (idx + 1) (name emp)]\<rparr>)))))"

fun process_pages ::
  "string \<Rightarrow> string list \<Rightarrow> nat \<Rightarrow> page list \<Rightarrow> employee list \<times> processing_result \<Rightarrow>
   exn + (employee list \<times> processing_result)" where
  "process_pages per skip_save idx [] st = Inr st"
| "process_pages per skip_save idx (pg # pgs) st =
     (case process_page per skip_save idx pg st of
        Inl e \<Rightarrow> Inl e
      | Inr st' \<Rightarrow> process_pages per skip_save (Suc idx) pgs st')"

definition empty_result :: processing_result where
  "empty_result = \<lparr>saved_files = [], unmatched_pages = [], errors = []\<rparr>"

text \<open>
  \<open>process_pdf\<close>. The period is given (the caller \<open>payroll_process\<close> always passes one).
  The result holds the employees as the loop leaves them.
\<close>

definition process_pdf ::
  "page list option \<Rightarrow> employee list \<Rightarrow> string \<Rightarrow> string list \<Rightarrow>
   exn + (employee list \<times> processing_result)" where
  "process_pdf pdf employees per skip_save =
     (case pdf of
        None \<Rightarrow> Inr (employees, empty_result\<lparr>errors := [CannotOpen]\<rparr>)
      | Some pages \<Rightarrow> process_pages per skip_save 0 pages (employees, empty_result))"


section \<open>The idempotency ledger (\<open>skills/payroll/idempotency.py\<close>)\<close>

text \<open>
  \<open>make_idempotency_key\<close>: the SHA-256 hex digest of \<open>name|period|amount\<close>, the name
  stripped and lower-cased. \<open>sha256_hex\<close> stands for \<open>hashlib.sha256(_).hexdigest()\<close>,
  a function of the bytes.
\<close>

definition make_idempotency_key ::
  "(char list \<Rightarrow> string) \<Rightarrow> string \<Rightarrow> string \<Rightarrow> int \<Rightarrow> string" where
  "make_idempotency_key sha256_hex nm per amount =
     (let raw = py_lower (py_strip nm) @ ''|'' @ per @ ''|'' @ str_int amount
      in sha256_hex (py_encode raw))"

datatype status = Pending | Success | Failed

text \<open>
  A row of the table \<open>transfers\<close>; the primary key \<open>idempotency_key\<close> is the key of the
  map. The two time stamps are readings of the clock.
\<close>

record transfer_row =
  employee_name :: string
  period :: string
  amount_cents :: int
  status :: status
  transfer_id :: "string option"
  created_at :: nat
  updated_at :: nat

type_synonym ledger = "string \<rightharpoonup> transfer_row"

definition is_already_processed :: "ledger \<Rightarrow> string \<Rightarrow> bool" where
  "is_already_processed db key =
     (case db key of None \<Rightarrow> False | Some row \<Rightarrow> status row = Success)"

text \<open>
  SQLite stores an \<open>INTEGER\<close> in 64 bits; the \<open>sqlite3\<close> module raises
  \<open>OverflowError\<close> when it is handed a Python integer outside that range.
\<close>

definition sqlite_integer :: "int \<Rightarrow> bool" where
  "sqlite_integer i = (- (2 ^ 63) \<le> i \<and> i < 2 ^ 63)"

text \<open>
  \<open>record_pending\<close>: \<open>INSERT ... ON CONFLICT(idempotency_key) DO UPDATE SET
  status = excluded.status, updated_at = excluded.updated_at\<close>, then \<open>commit\<close>.
\<close>

definition record_pending ::
  "ledger \<Rightarrow> nat \<Rightarrow> string \<Rightarrow> string \<Rightarrow> string \<Rightarrow> int \<Rightarrow> exn + ledger" where
  "record_pending db now key nm per amount =
     (if \<not> sqlite_integer amount then Inl OverflowError
      else case db key of
        None \<Rightarrow> Inr (db(key \<mapsto>
          \<lparr>employee_name = nm, period = per, amount_cents = amount, status = Pending,
           transfer_id = None, created_at = now, updated_at = now\<rparr>))
      | Some row \<Rightarrow> Inr (db(key \<mapsto> row\<lparr>status := Pending, updated_at := now\<rparr>)))"

text \<open>
  \<open>record_success\<close>: \<open>UPDATE transfers SET status = 'success', transfer_id = ?,
  updated_at = ? WHERE idempotency_key = ?\<close>. No row, no change.
\<close>

definition record_success :: "ledger \<Rightarrow> nat \<Rightarrow> string \<Rightarrow> string option \<Rightarrow> ledger" where
  "record_success db now key tid =
     (case db key of
        None \<Rightarrow> db
      | Some row \<Rightarrow> db(key \<mapsto> row\<lparr>status := Success, transfer_id := tid, updated_at := now\<rparr>))"

text \<open>
  \<open>record_failure\<close>: \<open>UPDATE transfers SET status = 'failed', updated_at = ? WHERE
  idempotency_key = ?\<close>. The error text is only logged.
\<close>

definition record_failure :: "ledger \<Rightarrow> nat \<Rightarrow> string \<Rightarrow> string \<Rightarrow> ledger" where
  "record_failure db now key err =
     (case db key of
        None \<Rightarrow> db
      | Some row \<Rightarrow> db(key \<mapsto> row\<lparr>status := Failed, updated_at := now\<rparr>))"


section \<open>The bank, the clock and the history of a run\<close>

text \<open>
  What the code reads from a response of the bank. Besides the status and the
  \<open>Retry-After\<close> header these are the values of the expressions the code applies to
  the body, \<open>None\<close> where the expression raises (a body that is not JSON, a missing key):
  \<^item> \<open>bank_accounts\<close>: the pairs (iban, id) of \<open>organization.bank_accounts\<close>;
  \<^item> \<open>proof_token\<close>: \<open>data["proof_token"]["token"]\<close>;
  \<^item> \<open>sca_session_token\<close>: \<open>resp.json().get("sca_session_token", "")\<close>, empty when
    that raises;
  \<^item> \<open>transfer_ident\<close>: \<open>str(t.get("id") or t.get("uuid", ""))\<close>;
  \<^item> \<open>sca_result\<close>: \<open>session_data.get("result") or session_data.get("status", "")\<close>;
  \<^item> \<open>mentions_idempotency\<close>: whether the lower-cased body contains \<open>idempotency\<close> or
    \<open>already\<close>;
  \<^item> \<open>error_text\<close>: \<open>_extract_error(body)\<close>.
\<close>

datatype retry_after = NoRetryAfter | RetryAfterSeconds int | RetryAfterMalformed

record response =
  status_code :: int
  retry_after :: retry_after
  bank_accounts :: "(string \<times> string) list option"
  proof_token :: "string option"
  sca_session_token :: string
  transfer_ident :: "string option"
  sca_result :: "string option"
  mentions_idempotency :: bool
  error_text :: string

text \<open>
  The body of \<open>POST /sepa/transfers\<close> with the two headers that vary:
  \<open>X-Qonto-Idempotency-Key\<close> and \<open>X-Qonto-Sca-Session-Token\<close>.
\<close>

record transfer_post =
  idempotency_key :: string
  sca_header :: "string option"
  vop_proof_token :: string
  debit_account :: string
  credit_name :: string
  credit_iban :: string
  post_amount_cents :: int
  reference_period :: string

datatype request =
    GetOrganization
  | PostVerifyPayee string string
  | PostTransfer transfer_post
  | GetScaSession string

text \<open>What \<open>requests.request\<close> does: a response, or one of the exceptions.\<close>

datatype http_outcome = Responded response | RaisedTimeout | RaisedConnectionError | RaisedOther

text \<open>
  The history of a run, in order: a request handed to \<open>requests.request\<close>, a
  \<open>time.sleep\<close> (seconds), a committed write of the ledger (key and status written), the
  warning of \<open>_request\<close> that announces a retry (attempt and wait), a call of
  \<open>get_valid_token\<close>.
\<close>

datatype event =
    Sent request
  | Slept nat
  | Committed string status
  | RetryWarning nat int
  | TokenFetched

text \<open>
  The surroundings of a run. The bank and the token provider are arbitrary functions of
  the history so far (for the bank it ends with the request being sent); each also says
  how long the call takes, in milliseconds. \<open>current_month\<close> is
  \<open>datetime.now().strftime("%Y-%m")\<close>.
\<close>

record environment =
  getenv :: "string \<Rightarrow> string option"
  http :: "event list \<Rightarrow> http_outcome \<times> nat"
  valid_token :: "event list \<Rightarrow> (exn + string) \<times> nat"
  current_month :: string

datatype level = INFO | WARNING | ERROR

text \<open>The lines that \<open>payroll_process\<close> and \<open>create_transfer\<close> log, by their content.\<close>

datatype message =
    CsvLoaded nat
  | PdfProcessing
  | PdfSaved "string \<times> string"
  | PageUnmatched nat
  | PdfFailure pdf_error
  | TransfersSkipped
  | ConfigMissing
  | NoAmount string
  | AlreadyProcessed string
  | TransferStart string string int
  | TransferOk string "string option"
  | TransferFailed string string
  | PleaseConfirm string
  | WaitingApproval nat
  | ScaDenied
  | ScaTimeout

text \<open>
  The state: the table of the ledger, the clock (milliseconds), the history, and the list
  \<open>logs\<close> of the running \<open>payroll_process\<close>. The last field is kept for the
  statements only (the code has no such list): every request handed to
  \<open>requests.request\<close>, with the table of the ledger as it is at that moment.
\<close>

record world =
  ledger :: ledger
  clock :: nat
  trace :: "event list"
  logs :: "(level \<times> message) list"
  submitted :: "(request \<times> ledger) list"

definition emit :: "event \<Rightarrow> world \<Rightarrow> world" where
  "emit e w = w\<lparr>trace := trace w @ [e]\<rparr>"

definition tick :: "nat \<Rightarrow> world \<Rightarrow> world" where
  "tick d w = w\<lparr>clock := clock w + d\<rparr>"

definition log :: "level \<Rightarrow> message \<Rightarrow> world \<Rightarrow> world" where
  "log lv m w = w\<lparr>logs := logs w @ [(lv, m)]\<rparr>"

text \<open>\<open>time.sleep(secs)\<close>; a negative length raises \<open>ValueError\<close>.\<close>

definition slept :: "nat \<Rightarrow> world \<Rightarrow> world" where
  "slept secs w = tick (secs * 1000) (emit (Slept secs) w)"

definition sleep :: "int \<Rightarrow> world \<Rightarrow> exn + world" where
  "sleep secs w = (if secs < 0 then Inl ValueError else Inr (slept (nat secs) w))"

text \<open>
  \<open>requests.request(method, url, ...)\<close>. \<open>submit\<close> is the moment the request is handed
  over: the history gets the event, and \<open>submitted\<close> the request with the table of the
  ledger.
\<close>

definition submit :: "request \<Rightarrow> world \<Rightarrow> world" where
  "submit req w = emit (Sent req) (w\<lparr>submitted := submitted w @ [(req, ledger w)]\<rparr>)"

definition send :: "environment \<Rightarrow> request \<Rightarrow> world \<Rightarrow> http_outcome \<times> world" where
  "send env req w =
     (let w1 = submit req w;
          (out, d) = http env (trace w1)
      in (out, tick d w1))"

text \<open>\<open>get_valid_token\<close>, as \<open>_oauth_headers\<close> calls it.\<close>

definition fetch_token :: "environment \<Rightarrow> world \<Rightarrow> (exn + string) \<times> world" where
  "fetch_token env w =
     (let w1 = emit TokenFetched w;
          (out, d) = valid_token env (trace w1)
      in (out, tick d w1))"

text \<open>The writes of the ledger, on the state; each ends with \<open>conn.commit()\<close>.\<close>

definition do_record_pending :: "string \<Rightarrow> string \<Rightarrow> string \<Rightarrow> int \<Rightarrow> world \<Rightarrow> exn + world" where
  "do_record_pending key nm per amt w =
     (case record_pending (ledger w) (clock w) key nm per amt of
        Inl e \<Rightarrow> Inl e
      | Inr db \<Rightarrow> Inr (emit (Committed key Pending) (w\<lparr>ledger := db\<rparr>)))"

definition do_record_success :: "string \<Rightarrow> string option \<Rightarrow> world \<Rightarrow> world" where
  "do_record_success key tid w =
     emit (Committed key Success) (w\<lparr>ledger := record_success (ledger w) (clock w) key tid\<rparr>)"

definition do_record_failure :: "string \<Rightarrow> string \<Rightarrow> world \<Rightarrow> world" where
  "do_record_failure key err w =
     emit (Committed key Failed) (w\<lparr>ledger := record_failure (ledger w) (clock w) key err\<rparr>)"


section \<open>The client of the bank (\<open>skills/payroll/qonto_client.py\<close>)\<close>

record transfer_result =
  success :: bool
  result_transfer_id :: "string option"
  error :: string
  result_status_code :: "int option"

subsection \<open>\<open>QontoClient._request\<close>\<close>

text \<open>\<open>int(resp.headers.get("Retry-After", 2 ** attempt))\<close>\<close>

definition retry_wait :: "response \<Rightarrow> nat \<Rightarrow> exn + int" where
  "retry_wait resp attempt =
     (case retry_after resp of
        NoRetryAfter \<Rightarrow> Inr (2 ^ attempt)
      | RetryAfterSeconds n \<Rightarrow> Inr n
      | RetryAfterMalformed \<Rightarrow> Inl ValueError)"

text \<open>
  The loop \<open>for attempt in range(1, retries + 1)\<close>, from \<open>attempt\<close> on, and the
  \<open>raise requests.ConnectionError\<close> after it.
\<close>

function request_attempts ::
  "environment \<Rightarrow> request \<Rightarrow> nat \<Rightarrow> nat \<Rightarrow> world \<Rightarrow> (exn + response) \<times> world" where
  "request_attempts env req retries attempt w =
     (if retries < attempt then (Inl ReqConnectionError, w)
      else
        case send env req w of
          (Responded resp, w1) \<Rightarrow>
            if status_code resp = 429 \<or> status_code resp \<ge> 500 then
              (case retry_wait resp attempt of
                 Inl e \<Rightarrow> (Inl e, w1)
               | Inr wait \<Rightarrow>
                   let w2 = emit (RetryWarning attempt wait) w1
                   in if attempt < retries then
                        (case sleep wait w2 of
                           Inl e \<Rightarrow> (Inl e, w2)
                         | Inr w3 \<Rightarrow> request_attempts env req retries (attempt + 1) w3)
                      else (Inr resp, w2))
            else (Inr resp, w1)
        | (RaisedTimeout, w1) \<Rightarrow>
            request_attempts env req retries (attempt + 1)
              (if attempt < retries then slept (2 ^ attempt) w1 else w1)
        | (RaisedConnectionError, w1) \<Rightarrow>
            request_attempts env req retries (attempt + 1)
              (if attempt < retries then slept (2 ^ attempt) w1 else w1)
        | (RaisedOther, w1) \<Rightarrow> (Inl ReqOther, w1))"
  by pat_completeness auto
termination
  by (relation "measure (\<lambda>(env, req, retries, attempt, w). retries + 1 - attempt)") auto

declare request_attempts.simps [simp del]

text \<open>
  \<open>_request\<close> with its default \<open>retries = 3\<close>. With \<open>use_oauth\<close> the headers need a
  token first, and whatever \<open>get_valid_token\<close> raises leaves \<open>_request\<close>.
\<close>

definition request :: "environment \<Rightarrow> request \<Rightarrow> bool \<Rightarrow> world \<Rightarrow> (exn + response) \<times> world" where
  "request env req use_oauth w =
     (if use_oauth then
        (case fetch_token env w of
           (Inl e, w1) \<Rightarrow> (Inl e, w1)
         | (Inr tok, w1) \<Rightarrow> request_attempts env req 3 1 w1)
      else request_attempts env req 3 1 w)"


subsection \<open>What a request changes\<close>

text \<open>The requests among the events of a history, in order.\<close>

fun sent_requests :: "event list \<Rightarrow> request list" where
  "sent_requests [] = []"
| "sent_requests (Sent r # evs) = r # sent_requests evs"
| "sent_requests (e # evs) = sent_requests evs"

lemma sent_requests_append [simp]:
  "sent_requests (xs @ ys) = sent_requests xs @ sent_requests ys"
  by (induction xs rule: sent_requests.induct) auto

text \<open>
  \<open>net_step P w w'\<close>: from \<open>w\<close> to \<open>w'\<close> the ledger is unchanged, the clock has not run
  backwards, the history has grown by events that satisfy \<open>P\<close>, the requests among
  them are the ones added to \<open>submitted\<close> (each with the ledger of \<open>w\<close>), and lines were
  only added to the log.
\<close>

definition net_step :: "(event \<Rightarrow> bool) \<Rightarrow> world \<Rightarrow> world \<Rightarrow> bool" where
  "net_step P w w' =
     (ledger w' = ledger w \<and> clock w \<le> clock w'
      \<and> (\<exists>evs. trace w' = trace w @ evs \<and> list_all P evs
             \<and> submitted w' = submitted w @ map (\<lambda>req. (req, ledger w)) (sent_requests evs))
      \<and> (\<exists>ls. logs w' = logs w @ ls))"

lemma net_step_refl: "net_step P w w"
  by (simp add: net_step_def)

lemma net_step_trans: "net_step P w w1 \<Longrightarrow> net_step P w1 w2 \<Longrightarrow> net_step P w w2"
  by (auto simp: net_step_def)

lemma net_step_mono: "net_step P w w' \<Longrightarrow> (\<And>e. P e \<Longrightarrow> Q e) \<Longrightarrow> net_step Q w w'"
  by (auto simp: net_step_def list_all_iff)

lemma net_step_emit: "P e \<Longrightarrow> sent_requests [e] = [] \<Longrightarrow> net_step P w (emit e w)"
  by (simp add: net_step_def emit_def)

lemma net_step_log: "net_step P w (log lv m w)"
  by (simp add: net_step_def log_def)

lemma net_step_slept: "P (Slept n) \<Longrightarrow> net_step P w (slept n w)"
  by (simp add: net_step_def slept_def tick_def emit_def)

lemma net_step_sleep: "P (Slept (nat n)) \<Longrightarrow> sleep n w = Inr w' \<Longrightarrow> net_step P w w'"
  by (auto simp: sleep_def net_step_slept split: if_splits)

lemma net_step_send: "P (Sent req) \<Longrightarrow> send env req w = (out, w') \<Longrightarrow> net_step P w w'"
  by (auto simp: send_def submit_def Let_def net_step_def tick_def emit_def split: prod.splits)

lemma net_step_fetch_token:
  "P TokenFetched \<Longrightarrow> fetch_token env w = (out, w') \<Longrightarrow> net_step P w w'"
  by (auto simp: fetch_token_def Let_def net_step_def tick_def emit_def split: prod.splits)

lemma net_step_clock: "net_step P w w' \<Longrightarrow> clock w \<le> clock w'"
  by (simp add: net_step_def)

lemma net_step_ledger: "net_step P w w' \<Longrightarrow> ledger w' = ledger w"
  by (simp add: net_step_def)

text \<open>The events of one call of \<open>_request\<close> for the request \<open>req\<close>.\<close>

fun request_event :: "request \<Rightarrow> event \<Rightarrow> bool" where
  "request_event req (Sent r) = (r = req)"
| "request_event req (Slept n) = True"
| "request_event req (Committed k s) = False"
| "request_event req (RetryWarning a n) = True"
| "request_event req TokenFetched = True"

lemma request_attempts_net_step:
  "net_step (request_event req) w (snd (request_attempts env req retries attempt w))"
proof (induction env req retries attempt w rule: request_attempts.induct)
  case (1 env req retries attempt w)
  let ?P = "request_event req"
  note eq = request_attempts.simps[of env req retries attempt w]
  show ?case
  proof (cases "retries < attempt")
    case True
    then show ?thesis unfolding eq by (simp add: net_step_refl)
  next
    case False
    obtain out w1 where sw: "send env req w = (out, w1)" by (cases "send env req w")
    then have s1: "net_step ?P w w1" by (intro net_step_send[of ?P req env w out w1]) simp_all
    show ?thesis
    proof (cases out)
      case (Responded resp)
      show ?thesis
      proof (cases "status_code resp = 429 \<or> status_code resp \<ge> 500")
        case tr: True
        show ?thesis
        proof (cases "retry_wait resp attempt")
          case (Inl e)
          with False sw Responded tr s1 show ?thesis unfolding eq by (simp add: Let_def net_step_refl)
        next
          case (Inr wait)
          let ?w2 = "emit (RetryWarning attempt wait) w1"
          have s2: "net_step ?P w ?w2"
            using s1 by (rule net_step_trans) (simp add: net_step_emit)
          show ?thesis
          proof (cases "attempt < retries")
            case lt: True
            show ?thesis
            proof (cases "sleep wait ?w2")
              case e: (Inl e)
              with False sw Responded tr Inr lt s2 show ?thesis unfolding eq by (simp add: Let_def net_step_refl)
            next
              case w3: (Inr w3)
              then have "net_step ?P ?w2 w3" by (intro net_step_sleep[of ?P wait ?w2 w3]) simp_all
              with s2 have "net_step ?P w w3" by (rule net_step_trans)
              moreover have "net_step ?P w3 (snd (request_attempts env req retries (attempt + 1) w3))"
                using "1.IH"(1)[OF False sw[symmetric] Responded tr Inr refl lt w3] .
              ultimately have "net_step ?P w (snd (request_attempts env req retries (attempt + 1) w3))"
                by (rule net_step_trans)
              with False sw Responded tr Inr lt w3 show ?thesis unfolding eq by (simp add: Let_def net_step_refl)
            qed
          next
            case ge: False
            with False sw Responded tr Inr s2 show ?thesis unfolding eq by (simp add: Let_def net_step_refl)
          qed
        qed
      next
        case nt: False
        with False sw Responded s1 show ?thesis unfolding eq by (simp add: Let_def net_step_refl)
      qed
    next
      case RaisedTimeout
      let ?w2 = "if attempt < retries then slept (2 ^ attempt) w1 else w1"
      have "net_step ?P w1 ?w2" by (simp add: net_step_slept net_step_refl)
      with s1 have "net_step ?P w ?w2" by (rule net_step_trans)
      moreover have "net_step ?P ?w2 (snd (request_attempts env req retries (attempt + 1) ?w2))"
        using "1.IH"(2)[OF False sw[symmetric] RaisedTimeout] .
      ultimately have "net_step ?P w (snd (request_attempts env req retries (attempt + 1) ?w2))"
        by (rule net_step_trans)
      with False sw RaisedTimeout show ?thesis unfolding eq by (simp add: Let_def net_step_refl)
    next
      case RaisedConnectionError
      let ?w2 = "if attempt < retries then slept (2 ^ attempt) w1 else w1"
      have "net_step ?P w1 ?w2" by (simp add: net_step_slept net_step_refl)
      with s1 have "net_step ?P w ?w2" by (rule net_step_trans)
      moreover have "net_step ?P ?w2 (snd (request_attempts env req retries (attempt + 1) ?w2))"
        using "1.IH"(3)[OF False sw[symmetric] RaisedConnectionError] .
      ultimately have "net_step ?P w (snd (request_attempts env req retries (attempt + 1) ?w2))"
        by (rule net_step_trans)
      with False sw RaisedConnectionError show ?thesis unfolding eq by (simp add: Let_def net_step_refl)
    next
      case RaisedOther
      with False sw s1 show ?thesis unfolding eq by (simp add: Let_def net_step_refl)
    qed
  qed
qed

lemma request_net_step:
  "net_step (request_event req) w (snd (request env req use_oauth w))"
proof (cases use_oauth)
  case False
  then show ?thesis by (simp add: request_def request_attempts_net_step)
next
  case True
  obtain out w1 where fw: "fetch_token env w = (out, w1)" by (cases "fetch_token env w")
  then have a: "net_step (request_event req) w w1"
    by (intro net_step_fetch_token[of "request_event req" env w out w1]) simp_all
  show ?thesis
  proof (cases out)
    case (Inl e)
    with True fw a show ?thesis by (simp add: request_def)
  next
    case (Inr tok)
    have "net_step (request_event req) w1 (snd (request_attempts env req 3 1 w1))"
      by (rule request_attempts_net_step)
    with a have "net_step (request_event req) w (snd (request_attempts env req 3 1 w1))"
      by (rule net_step_trans)
    with True fw Inr show ?thesis by (simp add: request_def)
  qed
qed

lemma request_net_step_eq:
  "request env req use_oauth w = (r, w') \<Longrightarrow> net_step (request_event req) w w'"
  using request_net_step[of req w env use_oauth] by simp

lemma request_clock_le: "(r, w') = request env req use_oauth w \<Longrightarrow> clock w \<le> clock w'"
  using request_net_step_eq[of env req use_oauth w r w'] by (simp add: net_step_def)

subsection \<open>\<open>QontoClient._poll_sca_session\<close>\<close>

definition is_request_exception :: "exn \<Rightarrow> bool" where
  "is_request_exception e = (e = ReqConnectionError \<or> e = ReqTimeout \<or> e = ReqOther)"

definition denial_results :: "string list" where
  "denial_results = [''deny'', ''denied'', ''rejected'', ''cancel'']"

text \<open>
  The loop \<open>while time.time() < deadline\<close>. The clock is read in milliseconds, so the
  ten seconds between two progress lines are 10000 and \<open>int(deadline - now)\<close> is the
  quotient by 1000. The callback is the \<open>_log\<close> of \<open>payroll_process\<close>.
\<close>

function poll_loop ::
  "environment \<Rightarrow> string \<Rightarrow> nat \<Rightarrow> nat \<Rightarrow> world \<Rightarrow> (exn + bool) \<times> world" where
  "poll_loop env sca_tok deadline last_log_at w =
     (if \<not> clock w < deadline then (Inr False, log WARNING ScaTimeout w)
      else
        let now = clock w;
            progress = (last_log_at + 10000 \<le> now);
            w1 = (if progress then log INFO (WaitingApproval ((deadline - now) div 1000)) w else w);
            last_log_at1 = (if progress then now else last_log_at)
        in case request env (GetScaSession sca_tok) True w1 of
             (Inl e, w2) \<Rightarrow>
               if is_request_exception e
               then poll_loop env sca_tok deadline last_log_at1 (slept 2 w2)
               else (Inl e, w2)
           | (Inr resp, w2) \<Rightarrow>
               if status_code resp = 200 then
                 (case sca_result resp of
                    None \<Rightarrow> (Inl OtherError, w2)
                  | Some result \<Rightarrow>
                      if result = ''allow'' then (Inr True, w2)
                      else if result \<in> set denial_results
                      then (Inr False, log WARNING ScaDenied w2)
                      else poll_loop env sca_tok deadline last_log_at1 (slept 2 w2))
               else poll_loop env sca_tok deadline last_log_at1 (slept 2 w2))"
  by pat_completeness auto
termination
  apply (relation "measure (\<lambda>(env, sca_tok, deadline, last_log_at, w). deadline - clock w)")
     apply simp
    apply (auto simp: slept_def tick_def emit_def log_def dest!: request_clock_le split: if_splits)
  done

declare poll_loop.simps [simp del]

text \<open>\<open>_poll_sca_session\<close>: \<open>deadline = time.time() + timeout_seconds\<close>, \<open>last_log_at = 0.0\<close>.\<close>

definition poll_sca_session ::
  "environment \<Rightarrow> string \<Rightarrow> nat \<Rightarrow> world \<Rightarrow> (exn + bool) \<times> world" where
  "poll_sca_session env sca_tok timeout_seconds w =
     poll_loop env sca_tok (clock w + timeout_seconds * 1000) 0 w"

subsection \<open>\<open>QontoClient.__init__\<close> and \<open>_resolve_bank_account_id\<close>\<close>

record qonto_client =
  login :: string
  secret :: string
  debit_iban :: string
  client_id :: string
  client_secret :: string
  base_url :: string
  bank_account_id :: string

text \<open>\<open>os.getenv(var, "").strip()\<close>\<close>

definition getenv_stripped :: "environment \<Rightarrow> string \<Rightarrow> string" where
  "getenv_stripped env var = py_strip (case getenv env var of None \<Rightarrow> [] | Some v \<Rightarrow> v)"

definition required_settings :: "string list" where
  "required_settings =
     [''QONTO_LOGIN'', ''QONTO_SECRET_KEY'', ''QONTO_DEBIT_IBAN'', ''QONTO_CLIENT_ID'',
      ''QONTO_CLIENT_SECRET'']"

definition missing_settings :: "environment \<Rightarrow> string list" where
  "missing_settings env = filter (\<lambda>var. getenv_stripped env var = []) required_settings"

text \<open>
  \<open>_resolve_bank_account_id\<close>: the id of the first account whose IBAN is the debit
  IBAN (\<open>account.get("id", "")\<close>).
\<close>

definition resolve_bank_account_id ::
  "environment \<Rightarrow> string \<Rightarrow> world \<Rightarrow> (exn + string) \<times> world" where
  "resolve_bank_account_id env debit w =
     (case request env GetOrganization False w of
        (Inl e, w1) \<Rightarrow> (if e = ReqConnectionError then Inl QontoConfigError else Inl e, w1)
      | (Inr resp, w1) \<Rightarrow>
          if status_code resp \<noteq> 200 then (Inl QontoConfigError, w1)
          else
            (case bank_accounts resp of
               None \<Rightarrow> (Inl OtherError, w1)
             | Some accounts \<Rightarrow>
                 (case map_of accounts debit of
                    Some account_id \<Rightarrow> (Inr account_id, w1)
                  | None \<Rightarrow> (Inl QontoConfigError, w1))))"

text \<open>\<open>QontoClient()\<close>; the base URL has its trailing slashes removed.\<close>

definition new_qonto_client :: "environment \<Rightarrow> world \<Rightarrow> (exn + qonto_client) \<times> world" where
  "new_qonto_client env w =
     (if missing_settings env \<noteq> [] then (Inl QontoConfigError, w)
      else
        case resolve_bank_account_id env (getenv_stripped env ''QONTO_DEBIT_IBAN'') w of
          (Inl e, w1) \<Rightarrow> (Inl e, w1)
        | (Inr account_id, w1) \<Rightarrow>
            (Inr \<lparr>login = getenv_stripped env ''QONTO_LOGIN'',
                  secret = getenv_stripped env ''QONTO_SECRET_KEY'',
                  debit_iban = getenv_stripped env ''QONTO_DEBIT_IBAN'',
                  client_id = getenv_stripped env ''QONTO_CLIENT_ID'',
                  client_secret = getenv_stripped env ''QONTO_CLIENT_SECRET'',
                  base_url = rev (dropWhile (\<lambda>c. c = CHR ''/'')
                    (rev (case getenv env ''QONTO_API_BASE_URL'' of
                            None \<Rightarrow> ''https://thirdparty.qonto.com/v2'' | Some u \<Rightarrow> u))),
                  bank_account_id = account_id\<rparr>, w1))"

subsection \<open>\<open>_verify_payee\<close>, \<open>_parse_transfer_response\<close>, \<open>create_transfer\<close>\<close>

text \<open>
  \<open>_verify_payee\<close>: a connection error and a status other than 200 become
  \<open>ValueError\<close>; the verdict of the bank is only logged.
\<close>

definition verify_payee ::
  "environment \<Rightarrow> string \<Rightarrow> string \<Rightarrow> world \<Rightarrow> (exn + string) \<times> world" where
  "verify_payee env acct nm w =
     (case request env (PostVerifyPayee acct nm) True w of
        (Inl e, w1) \<Rightarrow> (if e = ReqConnectionError then Inl ValueError else Inl e, w1)
      | (Inr resp, w1) \<Rightarrow>
          if status_code resp \<noteq> 200 then (Inl ValueError, w1)
          else (case proof_token resp of
                  None \<Rightarrow> (Inl OtherError, w1)
                | Some t \<Rightarrow> (Inr t, w1)))"

definition parse_transfer_response :: "response \<Rightarrow> exn + transfer_result" where
  "parse_transfer_response resp =
     (if status_code resp = 200 \<or> status_code resp = 201 then
        (case transfer_ident resp of
           None \<Rightarrow> Inl OtherError
         | Some tid \<Rightarrow>
             Inr \<lparr>success = True, result_transfer_id = Some tid, error = [],
                  result_status_code = Some (status_code resp)\<rparr>)
      else if status_code resp = 422 then
        (if mentions_idempotency resp then
           Inr \<lparr>success = True, result_transfer_id = None,
                error = ''Bereits verarbeitet (Idempotenz)'', result_status_code = Some 422\<rparr>
         else
           Inr \<lparr>success = False, result_transfer_id = None, error = error_text resp,
                result_status_code = Some 422\<rparr>)
      else
        Inr \<lparr>success = False, result_transfer_id = None, error = error_text resp,
             result_status_code = Some (status_code resp)\<rparr>)"

definition failed_result :: "string \<Rightarrow> int option \<Rightarrow> transfer_result" where
  "failed_result msg code =
     \<lparr>success = False, result_transfer_id = None, error = msg, result_status_code = code\<rparr>"

definition unreachable_text :: string where
  "unreachable_text = ''Qonto API nicht erreichbar nach mehreren Versuchen.''"

text \<open>
  The second \<open>POST /sepa/transfers\<close> of \<open>create_transfer\<close>, and the first when
  \<open>sca_header\<close> is \<open>None\<close>: only \<open>requests.ConnectionError\<close> is caught.
\<close>

definition post_transfer ::
  "environment \<Rightarrow> transfer_post \<Rightarrow> world \<Rightarrow> (exn + (transfer_result + response)) \<times> world" where
  "post_transfer env post w =
     (case request env (PostTransfer post) True w of
        (Inl e, w1) \<Rightarrow>
          if e = ReqConnectionError then (Inr (Inl (failed_result unreachable_text None)), w1)
          else (Inl e, w1)
      | (Inr resp, w1) \<Rightarrow> (Inr (Inr resp), w1))"

text \<open>
  \<open>create_transfer\<close>. \<open>except Exception\<close> around \<open>_verify_payee\<close> catches every
  error of the model.
\<close>

definition create_transfer ::
  "environment \<Rightarrow> qonto_client \<Rightarrow> string \<Rightarrow> string \<Rightarrow> int \<Rightarrow> string \<Rightarrow> string \<Rightarrow> world \<Rightarrow>
   (exn + transfer_result) \<times> world" where
  "create_transfer env client cname ciban amt per key w =
     (case verify_payee env ciban cname w of
        (Inl e, w1) \<Rightarrow> (Inr (failed_result ''VOP fehlgeschlagen'' None), w1)
      | (Inr vop_token, w1) \<Rightarrow>
          let payload = \<lparr>idempotency_key = key, sca_header = None, vop_proof_token = vop_token,
                debit_account = bank_account_id client, credit_name = cname,
                credit_iban = ciban, post_amount_cents = amt, reference_period = per\<rparr>
          in case post_transfer env payload w1 of
               (Inl e, w2) \<Rightarrow> (Inl e, w2)
             | (Inr (Inl failure), w2) \<Rightarrow> (Inr failure, w2)
             | (Inr (Inr resp), w2) \<Rightarrow>
                 if status_code resp = 428 then
                   (let sca_token = sca_session_token resp
                    in if sca_token = [] then
                         (Inr (failed_result ''SCA erforderlich, aber kein sca_session_token.''
                                 (Some 428)), w2)
                       else
                         (case poll_sca_session env sca_token 300
                                 (log INFO (PleaseConfirm cname) w2) of
                            (Inl e, w3) \<Rightarrow> (Inl e, w3)
                          | (Inr approved, w3) \<Rightarrow>
                              if \<not> approved then
                                (Inr (failed_result ''SCA-Genehmigung verweigert oder Timeout.''
                                        (Some 428)), w3)
                              else
                                (case post_transfer env (payload\<lparr>sca_header := Some sca_token\<rparr>) w3 of
                                   (Inl e, w4) \<Rightarrow> (Inl e, w4)
                                 | (Inr (Inl failure), w4) \<Rightarrow> (Inr failure, w4)
                                 | (Inr (Inr resp2), w4) \<Rightarrow> (parse_transfer_response resp2, w4))))
                 else (parse_transfer_response resp, w2))"


section \<open>The orchestrator (\<open>payroll_process\<close> in \<open>skills/payroll/__init__.py\<close>)\<close>

text \<open>\<open>ParseResult\<close> of the CSV parser, which is given.\<close>

record parse_result =
  csv_employees :: "employee list"
  csv_errors :: "string list"

text \<open>
  What \<open>payroll_process\<close> returns: one of the two early texts, or the logged lines,
  followed (when the transfers ran) by the summary with the names counted as succeeded
  and as failed.
\<close>

record summary =
  pdfs_saved :: nat
  transfer_ok :: "string list"
  transfer_fail :: "string list"

datatype report =
    CsvErrorReport "string list"
  | NoEmployeesReport
  | LogReport "(level \<times> message) list" "summary option"

text \<open>
  The body of the loop \<open>for emp in employees\<close>, with the two lists \<open>transfer_ok\<close> and
  \<open>transfer_fail\<close>.
\<close>

definition transfer_one ::
  "(char list \<Rightarrow> string) \<Rightarrow> environment \<Rightarrow> qonto_client \<Rightarrow> string \<Rightarrow> employee \<Rightarrow>
   string list \<times> string list \<Rightarrow> world \<Rightarrow> (exn + string list \<times> string list) \<times> world" where
  "transfer_one sha256_hex env client per emp acc w =
     (let (ok, fail) = acc
      in if emp_amount_cents emp \<le> 0 then
           (Inr (ok, fail @ [name emp]), log WARNING (NoAmount (name emp)) w)
         else
           let key = make_idempotency_key sha256_hex (name emp) per (emp_amount_cents emp)
           in if is_already_processed (ledger w) key then
                (Inr (ok @ [name emp], fail), log INFO (AlreadyProcessed (name emp)) w)
              else
                (case do_record_pending key (name emp) per (emp_amount_cents emp) w of
                   Inl e \<Rightarrow> (Inl e, w)
                 | Inr w1 \<Rightarrow>
                     (case create_transfer env client (name emp) (iban emp)
                             (emp_amount_cents emp) per key
                             (log INFO (TransferStart (name emp) (iban_masked emp)
                                          (emp_amount_cents emp)) w1) of
                        (Inl e, w2) \<Rightarrow> (Inl e, w2)
                      | (Inr result, w2) \<Rightarrow>
                          if success result then
                            (Inr (ok @ [name emp], fail),
                             log INFO (TransferOk (name emp) (result_transfer_id result))
                               (do_record_success key (result_transfer_id result) w2))
                          else
                            (Inr (ok, fail @ [name emp]),
                             log ERROR (TransferFailed (name emp) (error result))
                               (do_record_failure key (error result) w2)))))"

fun transfer_loop ::
  "(char list \<Rightarrow> string) \<Rightarrow> environment \<Rightarrow> qonto_client \<Rightarrow> string \<Rightarrow> employee list \<Rightarrow>
   string list \<times> string list \<Rightarrow> world \<Rightarrow> (exn + string list \<times> string list) \<times> world" where
  "transfer_loop sha256_hex env client per [] acc w = (Inr acc, w)"
| "transfer_loop sha256_hex env client per (emp # emps) acc w =
     (case transfer_one sha256_hex env client per emp acc w of
        (Inl e, w1) \<Rightarrow> (Inl e, w1)
      | (Inr acc1, w1) \<Rightarrow> transfer_loop sha256_hex env client per emps acc1 w1)"

text \<open>The three loops that log the result of \<open>process_pdf\<close>.\<close>

definition log_pdf_result :: "processing_result \<Rightarrow> world \<Rightarrow> world" where
  "log_pdf_result res w =
     w\<lparr>logs := logs w
          @ map (\<lambda>saved. (INFO, PdfSaved saved)) (saved_files res)
          @ map (\<lambda>page_num. (WARNING, PageUnmatched page_num)) (unmatched_pages res)
          @ map (\<lambda>err. (ERROR, PdfFailure err)) (errors res)\<rparr>"

text \<open>
  \<open>payroll_process\<close>. \<open>Inl\<close> is an exception that leaves the function. \<open>logs\<close> is a
  fresh list in every call.
\<close>

definition payroll_process ::
  "(char list \<Rightarrow> string) \<Rightarrow> environment \<Rightarrow> parse_result \<Rightarrow> page list option \<Rightarrow>
   string option \<Rightarrow> bool \<Rightarrow> world \<Rightarrow> (exn + report) \<times> world" where
  "payroll_process sha256_hex env csv_result pdf period_arg skip_transfers w0 =
     (let per = (case period_arg of None \<Rightarrow> current_month env | Some p \<Rightarrow> p);
          w = w0\<lparr>logs := []\<rparr>
      in if csv_errors csv_result \<noteq> [] then (Inr (CsvErrorReport (csv_errors csv_result)), w)
         else if csv_employees csv_result = [] then (Inr NoEmployeesReport, w)
         else
           let w1 = log INFO PdfProcessing
                      (log INFO (CsvLoaded (length (csv_employees csv_result))) w)
           in case process_pdf pdf (csv_employees csv_result) per [] of
                Inl e \<Rightarrow> (Inl e, w1)
              | Inr (employees, pdf_result) \<Rightarrow>
                  let w2 = log_pdf_result pdf_result w1
                  in if skip_transfers then
                       (let w3 = log INFO TransfersSkipped w2
                        in (Inr (LogReport (logs w3) None), w3))
                     else
                       (case new_qonto_client env w2 of
                          (Inl e, w3) \<Rightarrow>
                            if e = QontoConfigError then
                              (let w4 = log ERROR ConfigMissing w3
                               in (Inr (LogReport (logs w4) None), w4))
                            else (Inl e, w3)
                        | (Inr client, w3) \<Rightarrow>
                            (case transfer_loop sha256_hex env client per employees ([], []) w3 of
                               (Inl e, w4) \<Rightarrow> (Inl e, w4)
                             | (Inr (ok, fail), w4) \<Rightarrow>
                                 (Inr (LogReport (logs w4)
                                         (Some \<lparr>pdfs_saved = length (saved_files pdf_result),
                                                transfer_ok = ok, transfer_fail = fail\<rparr>)),
                                  w4))))"


section \<open>Notions for the statements about a run\<close>

text \<open>The key under which the orchestrator processes an employee.\<close>

definition employee_key :: "(char list \<Rightarrow> string) \<Rightarrow> string \<Rightarrow> employee \<Rightarrow> string" where
  "employee_key sha256_hex per emp =
     make_idempotency_key sha256_hex (name emp) per (emp_amount_cents emp)"

text \<open>
  A monitor of a history. \<open>after_commits S evs\<close> are the keys whose last committed
  write is pending, when \<open>S\<close> were these keys before \<open>evs\<close>.
  \<open>submits_after_pending S evs\<close>: at every transfer request of \<open>evs\<close> the last committed
  write for its key is one of pending.
\<close>

fun after_commits :: "string set \<Rightarrow> event list \<Rightarrow> string set" where
  "after_commits S [] = S"
| "after_commits S (Committed k s # evs) =
     after_commits (if s = Pending then insert k S else S - {k}) evs"
| "after_commits S (e # evs) = after_commits S evs"

fun submits_after_pending :: "string set \<Rightarrow> event list \<Rightarrow> bool" where
  "submits_after_pending S [] = True"
| "submits_after_pending S (Sent (PostTransfer p) # evs) =
     (idempotency_key p \<in> S \<and> submits_after_pending S evs)"
| "submits_after_pending S (Committed k s # evs) =
     submits_after_pending (if s = Pending then insert k S else S - {k}) evs"
| "submits_after_pending S (e # evs) = submits_after_pending S evs"

text \<open>
  An event that is neither a transfer request under the key \<open>k\<close> nor a write of the row
  of \<open>k\<close>; and the number of writes of status success for \<open>k\<close> in a history.
\<close>

fun untouched :: "string \<Rightarrow> event \<Rightarrow> bool" where
  "untouched k (Sent (PostTransfer p)) = (idempotency_key p \<noteq> k)"
| "untouched k (Committed k' s) = (k' \<noteq> k)"
| "untouched k e = True"

definition successes :: "string \<Rightarrow> event list \<Rightarrow> nat" where
  "successes k evs = length (filter (\<lambda>e. e = Committed k Success) evs)"


text \<open>
  What a request saw when it was handed over: for a transfer request, a row under its
  key with status pending.
\<close>

fun pending_when_submitted :: "request \<times> ledger \<Rightarrow> bool" where
  "pending_when_submitted (PostTransfer p, db) =
     (case db (idempotency_key p) of None \<Rightarrow> False | Some row \<Rightarrow> status row = Pending)"
| "pending_when_submitted (r, db) = True"


(*MODEL-END*)

section \<open>Properties of the strings\<close>

lemma py_in_sublist: "py_in sub s = sublist sub s"
  by (induction s) (simp_all add: sublist_Cons_right)

lemma split_from_sublist: "t \<in> set (split_from cur s) \<Longrightarrow> sublist t (cur @ s)"
proof (induction s arbitrary: cur)
  case Nil
  then show ?case by (simp split: if_splits)
next
  case (Cons c cs)
  show ?case
  proof (cases "py_isspace c")
    case False
    with Cons.prems have "t \<in> set (split_from (cur @ [c]) cs)" by simp
    from Cons.IH[OF this] show ?thesis by simp
  next
    case True
    with Cons.prems have "t = cur \<or> t \<in> set (split_from [] cs)"
      by (auto split: if_splits)
    then show ?thesis
    proof
      assume "t = cur" then show ?thesis by simp
    next
      assume "t \<in> set (split_from [] cs)"
      from Cons.IH[OF this] have "sublist t cs" by simp
      then obtain ps ss where "cs = ps @ t @ ss" by (auto simp: sublist_def)
      then have "cur @ c # cs = (cur @ c # ps) @ t @ ss" by simp
      then show ?thesis unfolding sublist_def by blast
    qed
  qed
qed

lemma py_split_sublist: "t \<in> set (py_split s) \<Longrightarrow> sublist t s"
  using split_from_sublist[of t "[]" s] by (simp add: py_split_def)

text \<open>A token of a name occurs wherever the whole name occurs.\<close>

lemma token_in_text:
  "py_in s text \<Longrightarrow> t \<in> set (py_split s) \<Longrightarrow> py_in t text"
  unfolding py_in_sublist
  using py_split_sublist sublist_order.order.trans by blast

lemma split_from_nonempty:
  "cur \<noteq> [] \<or> (\<exists>c\<in>set s. \<not> py_isspace c) \<Longrightarrow> split_from cur s \<noteq> []"
  by (induction s arbitrary: cur) auto

lemma py_strip_nonblank:
  assumes "py_strip s \<noteq> []"
  shows "\<exists>c\<in>set (py_strip s). \<not> py_isspace c"
proof -
  let ?d = "dropWhile py_isspace (rev (dropWhile py_isspace s))"
  from assms have ne: "?d \<noteq> []" by (simp add: py_strip_def)
  then have "\<not> py_isspace (hd ?d)" by (rule hd_dropWhile)
  moreover from ne have "hd ?d \<in> set ?d" by simp
  ultimately show ?thesis by (auto simp: py_strip_def)
qed

lemma py_split_strip_nonempty: "py_strip s \<noteq> [] \<Longrightarrow> py_split (py_strip s) \<noteq> []"
  using py_strip_nonblank[of s] split_from_nonempty[of "[]" "py_strip s"]
  by (simp add: py_split_def)





lemma letters_not_space:
  "list_all (\<lambda>c. \<not> py_isspace c) (upper_letters @ lower_letters)"
  by code_simp

lemma case_pairs_not_space:
  assumes "(u, l) \<in> set case_pairs"
  shows "\<not> py_isspace u \<and> \<not> py_isspace l"
proof -
  from assms have "u \<in> set upper_letters" "l \<in> set lower_letters"
    by (auto simp: case_pairs_def dest: set_zip_leftD set_zip_rightD)
  with letters_not_space show ?thesis by (simp add: list_all_iff)
qed








section \<open>The idempotency key\<close>




section \<open>Amount extraction\<close>

lemma german_amount_errors:
  "german_amount_to_cents g = Inl e \<Longrightarrow> e = ValueError \<or> e = OverflowError"
  by (auto simp: german_amount_to_cents_def split: option.splits prod.splits)

lemma extract_amount_from_first:
  "extract_amount_from ps text =
     Inr (first_positive (List.map_filter (\<lambda>p. pattern_value p text) ps))"
proof (induction ps)
  case Nil
  show ?case by (simp add: first_positive_def List.map_filter_simps)
next
  case (Cons p ps)
  show ?case
  proof (cases "rx_search p text")
    case None
    then show ?thesis using Cons.IH by (simp add: pattern_value_def List.map_filter_simps)
  next
    case (Some g)
    show ?thesis
    proof (cases "german_amount_to_cents g")
      case (Inl e)
      with german_amount_errors have "e = ValueError \<or> e = OverflowError" by blast
      with Inl Some show ?thesis using Cons.IH
        by (auto simp: pattern_value_def List.map_filter_simps)
    next
      case (Inr c)
      with Some show ?thesis using Cons.IH
        by (simp add: pattern_value_def List.map_filter_simps first_positive_def)
    qed
  qed
qed



section \<open>Name scores and page matching\<close>

lemma score_name_match_range:
  "score_name_match text nm \<in> Inr ` {0, 2 / 10, 4 / 10, 7 / 10, 1}"
proof (cases "py_strip (py_lower nm) = []")
  case True
  then show ?thesis by (simp add: score_name_match_def Let_def py_in_sublist)
next
  case False
  then have "py_split (py_strip (py_lower nm)) \<noteq> []" by (rule py_split_strip_nonempty)
  then obtain p ps where "py_split (py_strip (py_lower nm)) = p # ps"
    by (cases "py_split (py_strip (py_lower nm))") auto
  then show ?thesis
    by (simp add: score_name_match_def Let_def)
qed

lemma score_name_match_score_of: "score_name_match text nm = Inr (score_of text nm)"
  using score_name_match_range[of "text" nm] by (auto simp: score_of_def)

lemma score_of_nonneg: "0 \<le> score_of text nm"
  using score_name_match_range[of "text" nm] by (auto simp: score_of_def)

lemma full_name_tokens:
  "py_in (py_strip (py_lower nm)) t \<Longrightarrow> list_all (\<lambda>p. py_in p t) (name_tokens nm)"
  unfolding name_tokens_def list_all_iff using token_in_text by blast

lemma score_tiers:
  assumes "2 \<le> length (name_tokens nm)"
  shows "score_name_match text nm =
     Inr (if py_in (py_strip (py_lower nm)) (py_lower text) then 1
          else if list_all (\<lambda>p. py_in p (py_lower text)) (name_tokens nm) then 7 / 10
          else if py_in (last (name_tokens nm)) (py_lower text) then 4 / 10
          else if py_in (hd (name_tokens nm)) (py_lower text) then 2 / 10
          else 0)"
  using assms by (simp add: score_name_match_def Let_def name_tokens_def)

lemma score_no_token:
  assumes "name_tokens nm \<noteq> []" and "\<forall>p\<in>set (name_tokens nm). \<not> py_in p (py_lower text)"
  shows "score_name_match text nm = Inr 0"
proof -
  have nofull: "\<not> py_in (py_strip (py_lower nm)) (py_lower text)"
    using assms full_name_tokens[of nm "py_lower text"]
    by (cases "name_tokens nm") (auto simp: list_all_iff)
  obtain p ps where ps: "name_tokens nm = p # ps"
    using assms(1) by (cases "name_tokens nm") auto
  have h: "\<not> py_in p (py_lower text)" using assms(2) ps by simp
  have l: "\<not> py_in (last (p # ps)) (py_lower text)" using assms(2) ps
    by (metis last_in_set list.distinct(1))
  show ?thesis
    using nofull ps h l unfolding name_tokens_def
    by (auto simp: score_name_match_def Let_def split: if_splits)
qed

lemma best_match_from_spec:
  "\<exists>s r. best_match_from text emps i b be = Inr (s, r) \<and> b \<le> s
     \<and> (\<forall>e\<in>set emps. score_of text (name e) \<le> s)
     \<and> (if s = b then r = be
         else (\<exists>j<length emps. r = Some (i + j) \<and> score_of text (name (emps ! j)) = s))"
proof (induction emps arbitrary: i b be)
  case Nil
  show ?case by simp
next
  case (Cons e emps)
  let ?sc = "score_of text (name e)"
  show ?case
  proof (cases "b < ?sc")
    case True
    from Cons.IH[of "Suc i" ?sc "Some i"] obtain s r where
      h: "best_match_from text emps (Suc i) ?sc (Some i) = Inr (s, r)" "?sc \<le> s"
         "\<forall>e\<in>set emps. score_of text (name e) \<le> s"
         "if s = ?sc then r = Some i
          else (\<exists>j<length emps. r = Some (Suc i + j) \<and> score_of text (name (emps ! j)) = s)"
      by blast
    have "\<exists>j<length (e # emps). r = Some (i + j) \<and> score_of text (name ((e # emps) ! j)) = s"
    proof (cases "s = ?sc")
      case True
      with h(4) have "r = Some (i + 0) \<and> score_of text (name ((e # emps) ! 0)) = s" by simp
      then show ?thesis by blast
    next
      case False
      with h(4) obtain j where "j < length emps" "r = Some (Suc i + j)"
        "score_of text (name (emps ! j)) = s" by auto
      then have "Suc j < length (e # emps) \<and> r = Some (i + Suc j)
        \<and> score_of text (name ((e # emps) ! Suc j)) = s" by simp
      then show ?thesis by blast
    qed
    with h True show ?thesis
      by (auto simp: score_name_match_score_of)
  next
    case False
    from Cons.IH[of "Suc i" b be] obtain s r where
      h: "best_match_from text emps (Suc i) b be = Inr (s, r)" "b \<le> s"
         "\<forall>e\<in>set emps. score_of text (name e) \<le> s"
         "if s = b then r = be
          else (\<exists>j<length emps. r = Some (Suc i + j) \<and> score_of text (name (emps ! j)) = s)"
      by blast
    have "if s = b then r = be
      else (\<exists>j<length (e # emps). r = Some (i + j) \<and> score_of text (name ((e # emps) ! j)) = s)"
    proof (cases "s = b")
      case True
      with h(4) show ?thesis by simp
    next
      case False
      with h(4) obtain j where "j < length emps" "r = Some (Suc i + j)"
        "score_of text (name (emps ! j)) = s" by auto
      then have "Suc j < length (e # emps) \<and> r = Some (i + Suc j)
        \<and> score_of text (name ((e # emps) ! Suc j)) = s" by simp
      with False show ?thesis by (simp only: if_False) blast
    qed
    with h False show ?thesis
      by (auto simp: score_name_match_score_of)
  qed
qed

lemma best_match_spec:
  "\<exists>s r. best_match text emps = Inr (s, r) \<and> 0 \<le> s
     \<and> (\<forall>e\<in>set emps. score_of text (name e) \<le> s)
     \<and> (if s = 0 then r = None
         else (\<exists>j<length emps. r = Some j \<and> score_of text (name (emps ! j)) = s))"
  using best_match_from_spec[of "text" emps 0 0 None]
  unfolding best_match_def add_0 by assumption

lemma extract_amount_total: "\<exists>a. extract_amount text = Inr a"
  by (simp add: extract_amount_def extract_amount_from_first)

lemma process_page_unmatched:
  assumes "\<forall>e\<in>set emps. score_of (page_text pg) (name e) < 4 / 10"
  shows "process_page per skip idx pg (emps, res) =
     Inr (emps, res\<lparr>unmatched_pages := unmatched_pages res @ [idx + 1]\<rparr>)"
proof -
  obtain a where a: "extract_amount (page_text pg) = Inr a"
    using extract_amount_total by blast
  obtain s r where b: "best_match (page_text pg) emps = Inr (s, r)"
    and r: "if s = 0 then r = None
         else (\<exists>j<length emps. r = Some j \<and> score_of (page_text pg) (name (emps ! j)) = s)"
    using best_match_spec[of "page_text pg" emps] by blast
  have "r = None \<or> s < 4 / 10"
  proof (cases "s = 0")
    case True with r show ?thesis by simp
  next
    case False
    with r obtain j where "j < length emps" "score_of (page_text pg) (name (emps ! j)) = s"
      by auto
    with assms show ?thesis by (metis nth_mem)
  qed
  then show ?thesis using a b
    by (auto simp: process_page_def Let_def split: option.splits)
qed

lemma make_filename_total:
  "py_strip nm \<noteq> [] \<Longrightarrow> \<exists>f. make_filename nm per = Inr f"
  using py_split_strip_nonempty[of nm]
  by (auto simp: make_filename_def Let_def split: list.splits)

lemma process_page_matched:
  assumes some: "\<exists>e\<in>set emps. 4 / 10 \<le> score_of (page_text pg) (name e)"
    and names: "\<forall>e\<in>set emps. py_strip (name e) \<noteq> []"
  shows "\<exists>emps' res' i a. process_page per skip idx pg (emps, res) = Inr (emps', res')
     \<and> unmatched_pages res' = unmatched_pages res
     \<and> i < length emps \<and> length emps' = length emps
     \<and> (\<forall>e\<in>set emps. score_of (page_text pg) (name e) \<le> score_of (page_text pg) (name (emps ! i)))
     \<and> extract_amount (page_text pg) = Inr a
     \<and> page_index (emps' ! i) = int idx \<and> emp_amount_cents (emps' ! i) = a
     \<and> name (emps' ! i) = name (emps ! i)"
proof -
  obtain a where a: "extract_amount (page_text pg) = Inr a"
    using extract_amount_total by blast
  obtain s r where b: "best_match (page_text pg) emps = Inr (s, r)"
    and mx: "\<forall>e\<in>set emps. score_of (page_text pg) (name e) \<le> s"
    and r: "if s = 0 then r = None
         else (\<exists>j<length emps. r = Some j \<and> score_of (page_text pg) (name (emps ! j)) = s)"
    using best_match_spec[of "page_text pg" emps] by blast
  from some mx have s: "4 / 10 \<le> s" by fastforce
  then have "s \<noteq> 0" by auto
  with r obtain j where j: "j < length emps" "r = Some j"
    "score_of (page_text pg) (name (emps ! j)) = s" by auto
  from names j(1) have "py_strip (name (emps ! j)) \<noteq> []" by simp
  then obtain f where f: "make_filename (name (emps ! j)) per = Inr f"
    using make_filename_total by blast
  have "\<exists>emps' res'. process_page per skip idx pg (emps, res) = Inr (emps', res')
     \<and> unmatched_pages res' = unmatched_pages res \<and> length emps' = length emps
     \<and> page_index (emps' ! j) = int idx \<and> emp_amount_cents (emps' ! j) = a
     \<and> name (emps' ! j) = name (emps ! j)"
    using a b s j f by (simp add: process_page_def Let_def)
  with j mx a show ?thesis by blast
qed

lemma lower_char_space: "py_isspace (lower_char c) = py_isspace c"
proof (cases "map_of case_pairs c")
  case None
  then show ?thesis by (simp add: lower_char_def)
next
  case (Some l)
  then have "(c, l) \<in> set case_pairs" by (rule map_of_SomeD)
  then have "\<not> py_isspace c \<and> \<not> py_isspace l" by (rule case_pairs_not_space)
  with Some show ?thesis by (simp add: lower_char_def)
qed

lemma py_strip_py_lower: "py_strip (py_lower s) = py_lower (py_strip s)"
  by (simp add: py_strip_def py_lower_def dropWhile_map rev_map comp_def lower_char_space)

lemma name_tokens_nonempty:
  assumes "py_strip nm \<noteq> []"
  shows "name_tokens nm \<noteq> []"
proof -
  from assms have "py_lower (py_strip nm) \<noteq> []" by (simp add: py_lower_def)
  then have "py_strip (py_lower nm) \<noteq> []" by (simp add: py_strip_py_lower)
  then show ?thesis unfolding name_tokens_def by (rule py_split_strip_nonempty)
qed

lemma score_last_name:
  assumes "2 \<le> length (name_tokens nm)" and "py_in (last (name_tokens nm)) (py_lower text)"
  shows "4 / 10 \<le> score_of text nm"
  using assms score_tiers[OF assms(1), of "text"] by (simp add: score_of_def)

text \<open>
  Claim C8. For a name of at least two tokens, \<open>score_name_match\<close> gives 1.0 when the
  whole name (lower-cased, stripped) occurs in the lower-cased text; otherwise 0.7 when
  every token occurs; otherwise 0.4 when the last token occurs; otherwise 0.2 when the
  first token occurs; otherwise 0.0. In a roster whose names are not blank, a page on
  which the last name of an employee occurs (a score of 0.4 at least) is matched: the
  loop body assigns the page to an employee and does not report it. A page on which no
  token of any employee occurs scores 0.0 and is reported unmatched, the employees
  unchanged.

  The threshold is 0.4, inclusive: a page is assigned (to an employee of the highest
  score) exactly when some employee scores 0.4 or more, and a page on which every
  employee scores less than 0.4 is reported unmatched, the employees unchanged. So a
  page that only has the first name of the employee (score 0.2), and on which no other
  employee reaches 0.4, is reported unmatched.
\<close>

theorem score_name_match_tiers_and_threshold:
  assumes multi: "2 \<le> length (name_tokens nm)"
    and roster: "e \<in> set emps" "name e = nm" "\<forall>e'\<in>set emps. py_strip (name e') \<noteq> []"
    and pg: "page_text pg = text"
  shows "(py_in (py_strip (py_lower nm)) (py_lower text) \<longrightarrow> score_name_match text nm = Inr 1)
    \<and> (\<not> py_in (py_strip (py_lower nm)) (py_lower text)
         \<and> list_all (\<lambda>p. py_in p (py_lower text)) (name_tokens nm)
        \<longrightarrow> score_name_match text nm = Inr (7 / 10))
    \<and> (py_in (last (name_tokens nm)) (py_lower text)
         \<and> \<not> list_all (\<lambda>p. py_in p (py_lower text)) (name_tokens nm)
        \<longrightarrow> score_name_match text nm = Inr (4 / 10))
    \<and> (py_in (hd (name_tokens nm)) (py_lower text)
         \<and> \<not> py_in (last (name_tokens nm)) (py_lower text)
        \<longrightarrow> score_name_match text nm = Inr (2 / 10))
    \<and> (\<not> py_in (hd (name_tokens nm)) (py_lower text)
         \<and> \<not> py_in (last (name_tokens nm)) (py_lower text)
        \<longrightarrow> score_name_match text nm = Inr 0)
    \<and> (py_in (last (name_tokens nm)) (py_lower text)
        \<longrightarrow> (\<exists>emps' res' i. process_page per skip idx pg (emps, res) = Inr (emps', res')
               \<and> unmatched_pages res' = unmatched_pages res
               \<and> i < length emps \<and> page_index (emps' ! i) = int idx))
    \<and> ((\<forall>e'\<in>set emps. \<forall>p\<in>set (name_tokens (name e')). \<not> py_in p (py_lower text))
        \<longrightarrow> score_name_match text nm = Inr 0
            \<and> process_page per skip idx pg (emps, res)
                = Inr (emps, res\<lparr>unmatched_pages := unmatched_pages res @ [idx + 1]\<rparr>))
    \<and> (\<forall>e'\<in>set emps. score_name_match text (name e') = Inr (score_of text (name e')))
    \<and> ((\<exists>e'\<in>set emps. 4 / 10 \<le> score_of text (name e'))
        \<longrightarrow> (\<exists>emps' res' i. process_page per skip idx pg (emps, res) = Inr (emps', res')
               \<and> unmatched_pages res' = unmatched_pages res
               \<and> i < length emps \<and> length emps' = length emps
               \<and> page_index (emps' ! i) = int idx
               \<and> (\<forall>e'\<in>set emps. score_of text (name e') \<le> score_of text (name (emps ! i)))))
    \<and> ((\<forall>e'\<in>set emps. score_of text (name e') < 4 / 10)
        \<longrightarrow> process_page per skip idx pg (emps, res)
              = Inr (emps, res\<lparr>unmatched_pages := unmatched_pages res @ [idx + 1]\<rparr>))
    \<and> (py_in (hd (name_tokens nm)) (py_lower text)
         \<and> \<not> py_in (last (name_tokens nm)) (py_lower text)
         \<and> (\<forall>e'\<in>set emps. name e' \<noteq> nm \<longrightarrow> score_of text (name e') < 4 / 10)
        \<longrightarrow> process_page per skip idx pg (emps, res)
              = Inr (emps, res\<lparr>unmatched_pages := unmatched_pages res @ [idx + 1]\<rparr>))"
proof (intro conjI impI)
  note t = score_tiers[OF multi, of "text"]
  have all_last: "list_all (\<lambda>p. py_in p (py_lower text)) (name_tokens nm)
      \<Longrightarrow> py_in (last (name_tokens nm)) (py_lower text)"
    using multi by (cases "name_tokens nm") (auto simp: list_all_iff)
  have all_hd: "list_all (\<lambda>p. py_in p (py_lower text)) (name_tokens nm)
      \<Longrightarrow> py_in (hd (name_tokens nm)) (py_lower text)"
    using multi by (cases "name_tokens nm") (auto simp: list_all_iff)
  note full = full_name_tokens[of nm "py_lower text"]
  show "score_name_match text nm = Inr 1" if "py_in (py_strip (py_lower nm)) (py_lower text)"
    using that t by simp
  show "score_name_match text nm = Inr (7 / 10)"
    if "\<not> py_in (py_strip (py_lower nm)) (py_lower text)
         \<and> list_all (\<lambda>p. py_in p (py_lower text)) (name_tokens nm)"
    using that t by simp
  show "score_name_match text nm = Inr (4 / 10)"
    if "py_in (last (name_tokens nm)) (py_lower text)
         \<and> \<not> list_all (\<lambda>p. py_in p (py_lower text)) (name_tokens nm)"
    using that t full by auto
  show first_only: "score_name_match text nm = Inr (2 / 10)"
    if "py_in (hd (name_tokens nm)) (py_lower text)
         \<and> \<not> py_in (last (name_tokens nm)) (py_lower text)"
    using that t full all_last by auto
  show "score_name_match text nm = Inr 0"
    if "\<not> py_in (hd (name_tokens nm)) (py_lower text)
         \<and> \<not> py_in (last (name_tokens nm)) (py_lower text)"
    using that t full all_last by auto
  show "\<exists>emps' res' i. process_page per skip idx pg (emps, res) = Inr (emps', res')
               \<and> unmatched_pages res' = unmatched_pages res
               \<and> i < length emps \<and> page_index (emps' ! i) = int idx"
    if "py_in (last (name_tokens nm)) (py_lower text)"
  proof -
    have "4 / 10 \<le> score_of (page_text pg) (name e)"
      using score_last_name[OF multi that] roster(2) pg by simp
    with roster(1) have "\<exists>e\<in>set emps. 4 / 10 \<le> score_of (page_text pg) (name e)" by blast
    from process_page_matched[OF this roster(3), of per skip idx res]
    show ?thesis by blast
  qed
  show "\<forall>e'\<in>set emps. score_name_match text (name e') = Inr (score_of text (name e'))"
    by (simp add: score_name_match_score_of)
  show "\<exists>emps' res' i. process_page per skip idx pg (emps, res) = Inr (emps', res')
               \<and> unmatched_pages res' = unmatched_pages res
               \<and> i < length emps \<and> length emps' = length emps
               \<and> page_index (emps' ! i) = int idx
               \<and> (\<forall>e'\<in>set emps. score_of text (name e') \<le> score_of text (name (emps ! i)))"
    if "\<exists>e'\<in>set emps. 4 / 10 \<le> score_of text (name e')"
  proof -
    from that pg have "\<exists>e\<in>set emps. 4 / 10 \<le> score_of (page_text pg) (name e)" by simp
    from process_page_matched[OF this roster(3), of per skip idx res] pg
    show ?thesis by blast
  qed
  show below: "process_page per skip idx pg (emps, res)
              = Inr (emps, res\<lparr>unmatched_pages := unmatched_pages res @ [idx + 1]\<rparr>)"
    if "\<forall>e'\<in>set emps. score_of text (name e') < 4 / 10"
    using that pg by (intro process_page_unmatched) simp
  show "process_page per skip idx pg (emps, res)
              = Inr (emps, res\<lparr>unmatched_pages := unmatched_pages res @ [idx + 1]\<rparr>)"
    if h: "py_in (hd (name_tokens nm)) (py_lower text)
         \<and> \<not> py_in (last (name_tokens nm)) (py_lower text)
         \<and> (\<forall>e'\<in>set emps. name e' \<noteq> nm \<longrightarrow> score_of text (name e') < 4 / 10)"
  proof (rule below, rule ballI)
    fix e' assume e': "e' \<in> set emps"
    show "score_of text (name e') < 4 / 10"
    proof (cases "name e' = nm")
      case True
      from h first_only have "score_of text nm = 2 / 10" by (simp add: score_of_def)
      with True show ?thesis by simp
    next
      case False
      with h e' show ?thesis by blast
    qed
  qed
  assume none: "\<forall>e'\<in>set emps. \<forall>p\<in>set (name_tokens (name e')). \<not> py_in p (py_lower text)"
  have zero: "score_name_match text (name e') = Inr 0" if "e' \<in> set emps" for e'
    using that none roster(3) name_tokens_nonempty[of "name e'"]
    by (intro score_no_token) auto
  from zero[OF roster(1)] roster(2) show "score_name_match text nm = Inr 0" by simp
  have "\<forall>e\<in>set emps. score_of (page_text pg) (name e) < 4 / 10"
    using zero pg by (simp add: score_of_def)
  then show "process_page per skip idx pg (emps, res)
                = Inr (emps, res\<lparr>unmatched_pages := unmatched_pages res @ [idx + 1]\<rparr>)"
    by (rule process_page_unmatched)
qed

definition michael_richter :: employee where
  "michael_richter = \<lparr>name = ''Michael Richter'', iban = ''DE89370400440532013000'',
     iban_masked = ''DE89****3000'', target_dir = ''/lohn/richter'', page_index = - 1,
     emp_amount_cents = 0, pdf_saved = False\<rparr>"

theorem score_name_match_tiers_and_threshold_witness:
  "score_name_match ''Lohnabrechnung Herr Richter Netto: 1.000,00'' ''Michael Richter'' = Inr (4 / 10)
   \<and> (\<exists>emps' res' i.
         process_page ''2026-02'' [] 0
           \<lparr>page_text = ''Lohnabrechnung Herr Richter Netto: 1.000,00'', write_ok = True\<rparr>
           ([michael_richter], empty_result) = Inr (emps', res')
         \<and> unmatched_pages res' = unmatched_pages empty_result
         \<and> i < length [michael_richter] \<and> page_index (emps' ! i) = int 0)
   \<and> score_name_match ''Herr Michael R. Netto: 5,00'' ''Michael Richter'' = Inr (2 / 10)
   \<and> process_page ''2026-02'' [] 0 \<lparr>page_text = ''Herr Michael R. Netto: 5,00'', write_ok = True\<rparr>
         ([michael_richter], empty_result)
       = Inr ([michael_richter], empty_result\<lparr>unmatched_pages := [1]\<rparr>)"
proof -
  let ?text = "''Lohnabrechnung Herr Richter Netto: 1.000,00''"
  let ?pg = "\<lparr>page_text = ?text, write_ok = True\<rparr>"
  let ?text2 = "''Herr Michael R. Netto: 5,00''"
  let ?pg2 = "\<lparr>page_text = ?text2, write_ok = True\<rparr>"
  have h1: "2 \<le> length (name_tokens ''Michael Richter'')" by code_simp
  have h2: "michael_richter \<in> set [michael_richter]" by simp
  have h3: "name michael_richter = ''Michael Richter''" by (simp add: michael_richter_def)
  have h4: "\<forall>e'\<in>set [michael_richter]. py_strip (name e') \<noteq> []"
    by (simp add: michael_richter_def py_strip_def py_isspace_def whitespace_chars_def)
  have h5: "page_text ?pg = ?text" "page_text ?pg2 = ?text2" by simp_all
  have l: "py_in (last (name_tokens ''Michael Richter'')) (py_lower ?text)" by code_simp
  have nl: "\<not> list_all (\<lambda>p. py_in p (py_lower ?text)) (name_tokens ''Michael Richter'')"
    by code_simp
  have f: "py_in (hd (name_tokens ''Michael Richter'')) (py_lower ?text2)" by code_simp
  have nf: "\<not> py_in (last (name_tokens ''Michael Richter'')) (py_lower ?text2)" by code_simp
  have u: "unmatched_pages empty_result = []" by (simp add: empty_result_def)
  from score_name_match_tiers_and_threshold[OF h1 h2 h3 h4 h5(1), of "''2026-02''" "[]" 0 empty_result]
    score_name_match_tiers_and_threshold[OF h1 h2 h3 h4 h5(2), of "''2026-02''" "[]" 0 empty_result]
    l nl f nf h3 u
  show ?thesis by simp
qed


section \<open>What the client and the orchestrator change\<close>

text \<open>
  The events of one \<open>create_transfer\<close> for the key \<open>key\<close>: no write of the ledger, and
  no transfer request under another key.
\<close>

fun transfer_event :: "string \<Rightarrow> event \<Rightarrow> bool" where
  "transfer_event key (Sent (PostTransfer p)) = (idempotency_key p = key)"
| "transfer_event key (Sent r) = True"
| "transfer_event key (Slept n) = True"
| "transfer_event key (Committed k s) = False"
| "transfer_event key (RetryWarning a n) = True"
| "transfer_event key TokenFetched = True"

lemma request_event_transfer_event:
  "(\<And>p. req = PostTransfer p \<Longrightarrow> idempotency_key p = key) \<Longrightarrow> request_event req e
   \<Longrightarrow> transfer_event key e"
  by (cases e; cases req) auto

lemma request_transfer_step:
  assumes "request env req use_oauth w = (r, w')"
    and "\<And>p. req = PostTransfer p \<Longrightarrow> idempotency_key p = key"
  shows "net_step (transfer_event key) w w'"
  using request_net_step_eq[OF assms(1)] request_event_transfer_event[OF assms(2)]
  by (rule net_step_mono)

lemma poll_loop_net_step:
  "net_step (transfer_event key) w (snd (poll_loop env tok deadline last_log_at w))"
proof (induction env tok deadline last_log_at w rule: poll_loop.induct)
  case (1 env tok deadline last_log_at w)
  let ?P = "transfer_event key"
  note eq = poll_loop.simps[of env tok deadline last_log_at w]
  show ?case
  proof (cases "clock w < deadline")
    case False
    then show ?thesis unfolding eq by (simp add: net_step_log)
  next
    case True
    let ?progress = "last_log_at + 10000 \<le> clock w"
    let ?w1 = "if ?progress
      then log INFO (WaitingApproval ((deadline - clock w) div 1000)) w else w"
    let ?l1 = "if ?progress then clock w else last_log_at"
    have s1: "net_step ?P w ?w1" by (simp add: net_step_log net_step_refl)
    obtain r w2 where rq: "request env (GetScaSession tok) True ?w1 = (r, w2)"
      by (cases "request env (GetScaSession tok) True ?w1")
    then have "net_step ?P ?w1 w2" by (rule request_transfer_step) simp
    with s1 have s2: "net_step ?P w w2" by (rule net_step_trans)
    have s3: "net_step ?P w (slept 2 w2)"
      using s2 by (rule net_step_trans) (simp add: net_step_slept)
    have nn: "\<not> \<not> clock w < deadline" using True by simp
    have again: "net_step ?P w (snd (poll_loop env tok deadline ?l1 (slept 2 w2)))"
      if "net_step ?P (slept 2 w2) (snd (poll_loop env tok deadline ?l1 (slept 2 w2)))"
      using s3 that by (rule net_step_trans)
    show ?thesis
    proof (cases r)
      case (Inl e)
      show ?thesis
      proof (cases "is_request_exception e")
        case ex: True
        from again[OF "1.IH"(1)[OF nn refl refl refl refl rq[symmetric] Inl ex]]
        show ?thesis unfolding eq using True rq Inl ex by (simp add: Let_def)
      next
        case False
        with True rq Inl s2 show ?thesis unfolding eq by (simp add: Let_def)
      qed
    next
      case (Inr resp)
      show ?thesis
      proof (cases "status_code resp = 200")
        case ok: True
        show ?thesis
        proof (cases "sca_result resp")
          case None
          with True rq Inr ok s2 show ?thesis unfolding eq by (simp add: Let_def)
        next
          case (Some result)
          show ?thesis
          proof (cases "result = ''allow''")
            case al: True
            with True rq Inr ok Some s2 show ?thesis unfolding eq by (simp add: Let_def)
          next
            case na: False
            show ?thesis
            proof (cases "result \<in> set denial_results")
              case dn: True
              have "net_step ?P w (log WARNING ScaDenied w2)"
                using s2 by (rule net_step_trans) (rule net_step_log)
              with True rq Inr ok Some na dn show ?thesis unfolding eq by (simp add: Let_def)
            next
              case nd: False
              from again[OF "1.IH"(2)[OF nn refl refl refl refl rq[symmetric] Inr ok Some na nd]]
              show ?thesis unfolding eq using True rq Inr ok Some na nd by (simp add: Let_def)
            qed
          qed
        qed
      next
        case no: False
        from again[OF "1.IH"(3)[OF nn refl refl refl refl rq[symmetric] Inr no]]
        show ?thesis unfolding eq using True rq Inr no by (simp add: Let_def)
      qed
    qed
  qed
qed

lemma poll_sca_session_net_step:
  "poll_sca_session env tok secs w = (r, w') \<Longrightarrow> net_step (transfer_event key) w w'"
  using poll_loop_net_step[of key w env tok "clock w + secs * 1000" 0]
  by (simp add: poll_sca_session_def)

lemma verify_payee_net_step:
  assumes "verify_payee env acct nm w = (r, w')"
  shows "net_step (transfer_event key) w w'"
proof -
  obtain r1 w1 where rq: "request env (PostVerifyPayee acct nm) True w = (r1, w1)"
    by (cases "request env (PostVerifyPayee acct nm) True w")
  then have "net_step (transfer_event key) w w1" by (rule request_transfer_step) simp
  moreover have "w' = w1"
    using assms rq by (auto simp: verify_payee_def split: sum.splits if_splits option.splits)
  ultimately show ?thesis by simp
qed

lemma post_transfer_net_step:
  assumes "post_transfer env post w = (r, w')" and "idempotency_key post = key"
  shows "net_step (transfer_event key) w w'"
proof -
  obtain r1 w1 where rq: "request env (PostTransfer post) True w = (r1, w1)"
    by (cases "request env (PostTransfer post) True w")
  then have "net_step (transfer_event key) w w1"
    by (rule request_transfer_step) (simp add: assms(2))
  moreover have "w' = w1"
    using assms(1) rq by (auto simp: post_transfer_def split: sum.splits if_splits)
  ultimately show ?thesis by simp
qed

lemma create_transfer_net_step:
  assumes "create_transfer env client cname ciban amt per key w = (r, w')"
  shows "net_step (transfer_event key) w w'"
proof -
  let ?P = "transfer_event key"
  obtain v w1 where vp: "verify_payee env ciban cname w = (v, w1)"
    by (cases "verify_payee env ciban cname w")
  then have s1: "net_step ?P w w1" by (rule verify_payee_net_step)
  show ?thesis
  proof (cases v)
    case (Inl e)
    with assms vp s1 show ?thesis by (simp add: create_transfer_def)
  next
    case (Inr vop)
    define payload where "payload = \<lparr>idempotency_key = key, sca_header = None,
      vop_proof_token = vop, debit_account = bank_account_id client, credit_name = cname,
      credit_iban = ciban, post_amount_cents = amt, reference_period = per\<rparr>"
    obtain p w2 where pt: "post_transfer env payload w1 = (p, w2)"
      by (cases "post_transfer env payload w1")
    then have "net_step ?P w1 w2" by (rule post_transfer_net_step) (simp add: payload_def)
    with s1 have s2: "net_step ?P w w2" by (rule net_step_trans)
    note ct = assms[unfolded create_transfer_def, simplified vp Inr, simplified,
        folded payload_def, unfolded Let_def, simplified pt, simplified]
    show ?thesis
    proof (cases p)
      case (Inl e)
      with ct s2 show ?thesis by simp
    next
      case pr: (Inr pr)
      show ?thesis
      proof (cases pr)
        case (Inl failure)
        with ct pr s2 show ?thesis by simp
      next
        case (Inr resp)
        show ?thesis
        proof (cases "status_code resp = 428 \<and> sca_session_token resp \<noteq> []")
          case False
          with ct pr Inr s2 show ?thesis by (auto split: if_splits)
        next
          case True
          let ?w2 = "log INFO (PleaseConfirm cname) w2"
          obtain a w3 where pl: "poll_sca_session env (sca_session_token resp) 300 ?w2 = (a, w3)"
            by (cases "poll_sca_session env (sca_session_token resp) 300 ?w2")
          then have "net_step ?P ?w2 w3" by (rule poll_sca_session_net_step)
          moreover have "net_step ?P w ?w2"
            using s2 by (rule net_step_trans) (rule net_step_log)
          ultimately have s3: "net_step ?P w w3" by (rule net_step_trans[rotated])
          show ?thesis
          proof (cases a)
            case (Inl e)
            with ct pr Inr True pl s3 show ?thesis by simp
          next
            case ap: (Inr approved)
            show ?thesis
            proof (cases approved)
              case False
              with ct pr Inr True pl ap s3 show ?thesis by simp
            next
              case tr: True
              obtain q w4 where p2: "post_transfer env
                  (payload\<lparr>sca_header := Some (sca_session_token resp)\<rparr>) w3 = (q, w4)"
                by (cases "post_transfer env
                  (payload\<lparr>sca_header := Some (sca_session_token resp)\<rparr>) w3")
              then have "net_step ?P w3 w4"
                by (rule post_transfer_net_step) (simp add: payload_def)
              with s3 have s4: "net_step ?P w w4" by (rule net_step_trans)
              from ct pr Inr True pl ap tr p2 s4 show ?thesis
                by (auto split: sum.splits)
            qed
          qed
        qed
      qed
    qed
  qed
qed

subsection \<open>One employee\<close>

lemma record_other_key:
  "k \<noteq> key \<Longrightarrow> record_success db now key tid k = db k"
  "k \<noteq> key \<Longrightarrow> record_failure db now key err k = db k"
  "k \<noteq> key \<Longrightarrow> record_pending db now key nm per amt = Inr db' \<Longrightarrow> db' k = db k"
  by (auto simp: record_success_def record_failure_def record_pending_def
      split: option.splits if_splits)

lemma transfer_one_no_amount:
  "emp_amount_cents emp \<le> 0 \<Longrightarrow>
   transfer_one sha256_hex env client per emp (ok, fail) w =
     (Inr (ok, fail @ [name emp]), log WARNING (NoAmount (name emp)) w)"
  by (simp add: transfer_one_def)

lemma transfer_one_already_processed:
  "0 < emp_amount_cents emp \<Longrightarrow>
   is_already_processed (ledger w)
     (make_idempotency_key sha256_hex (name emp) per (emp_amount_cents emp)) \<Longrightarrow>
   transfer_one sha256_hex env client per emp (ok, fail) w =
     (Inr (ok @ [name emp], fail), log INFO (AlreadyProcessed (name emp)) w)"
  by (simp add: transfer_one_def Let_def)

text \<open>
  An employee that is processed: unless \<open>record_pending\<close> raises, the history grows by
  the committed write of pending, then the events of \<open>create_transfer\<close>, then (unless an
  exception leaves \<open>create_transfer\<close>) the committed write of the outcome.
\<close>

lemma transfer_one_processed:
  assumes pos: "0 < emp_amount_cents emp"
    and key: "key = make_idempotency_key sha256_hex (name emp) per (emp_amount_cents emp)"
    and new: "\<not> is_already_processed (ledger w) key"
    and run: "transfer_one sha256_hex env client per emp (ok, fail) w = (r, w')"
  shows "(\<exists>e. r = Inl e \<and> w' = w)
     \<or> ((\<exists>evs fin. trace w' = trace w @ Committed key Pending # evs @ fin
            \<and> list_all (transfer_event key) evs
            \<and> (fin = [] \<or> fin = [Committed key Success] \<or> fin = [Committed key Failed]))
         \<and> (\<forall>k. k \<noteq> key \<longrightarrow> ledger w' k = ledger w k)
         \<and> (\<exists>ls. logs w' = logs w @ ls)
         \<and> ((\<exists>e. r = Inl e) \<or> r = Inr (ok @ [name emp], fail) \<or> r = Inr (ok, fail @ [name emp])))"
proof (cases "do_record_pending key (name emp) per (emp_amount_cents emp) w")
  case (Inl e)
  with pos new run show ?thesis by (auto simp add: transfer_one_def Let_def key[symmetric])
next
  case (Inr w1)
  then obtain db where db: "record_pending (ledger w) (clock w) key (name emp) per
      (emp_amount_cents emp) = Inr db"
    and w1: "w1 = emit (Committed key Pending) (w\<lparr>ledger := db\<rparr>)"
    by (auto simp: do_record_pending_def split: sum.splits)
  let ?w1 = "log INFO (TransferStart (name emp) (iban_masked emp) (emp_amount_cents emp)) w1"
  obtain c w2 where ct: "create_transfer env client (name emp) (iban emp)
      (emp_amount_cents emp) per key ?w1 = (c, w2)"
    by (cases "create_transfer env client (name emp) (iban emp)
      (emp_amount_cents emp) per key ?w1")
  then have "net_step (transfer_event key) ?w1 w2" by (rule create_transfer_net_step)
  then obtain evs ls where
    l2: "ledger w2 = db" and t2: "trace w2 = trace w @ Committed key Pending # evs"
    and ev: "list_all (transfer_event key) evs" and lg: "logs w2 = logs w @ ls"
    by (auto simp: net_step_def w1 emit_def log_def)
  have other: "\<forall>k. k \<noteq> key \<longrightarrow> db k = ledger w k"
    using db record_other_key(3) by blast
  note unf = run[unfolded transfer_one_def, simplified, unfolded Let_def key[symmetric],
      simplified pos new Inr ct, simplified]
  show ?thesis
  proof (cases c)
    case (Inl e)
    with unf ct have r: "r = Inl e" and w': "w' = w2" using pos by (auto split: if_splits)
    have "trace w' = trace w @ Committed key Pending # evs @ []" by (simp add: w' t2)
    moreover have "\<forall>k. k \<noteq> key \<longrightarrow> ledger w' k = ledger w k"
      using other by (simp add: w' l2)
    moreover have "\<exists>ls. logs w' = logs w @ ls" by (simp add: w' lg)
    ultimately show ?thesis using r ev by blast
  next
    case (Inr result)
    show ?thesis
    proof (cases "success result")
      case True
      with unf ct Inr pos have r: "r = Inr (ok @ [name emp], fail)"
        and w': "w' = log INFO (TransferOk (name emp) (result_transfer_id result))
                   (do_record_success key (result_transfer_id result) w2)"
        by (auto split: if_splits)
      have "trace w' = trace w @ Committed key Pending # evs @ [Committed key Success]"
        by (simp add: w' log_def do_record_success_def emit_def t2)
      moreover have "\<forall>k. k \<noteq> key \<longrightarrow> ledger w' k = ledger w k"
        using other by (simp add: w' log_def do_record_success_def emit_def l2 record_other_key)
      moreover have "\<exists>ls. logs w' = logs w @ ls"
        by (simp add: w' log_def do_record_success_def emit_def lg)
      ultimately show ?thesis using r ev by blast
    next
      case False
      with unf ct Inr pos have r: "r = Inr (ok, fail @ [name emp])"
        and w': "w' = log ERROR (TransferFailed (name emp) (error result))
                   (do_record_failure key (error result) w2)"
        by (auto split: if_splits)
      have "trace w' = trace w @ Committed key Pending # evs @ [Committed key Failed]"
        by (simp add: w' log_def do_record_failure_def emit_def t2)
      moreover have "\<forall>k. k \<noteq> key \<longrightarrow> ledger w' k = ledger w k"
        using other by (simp add: w' log_def do_record_failure_def emit_def l2 record_other_key)
      moreover have "\<exists>ls. logs w' = logs w @ ls"
        by (simp add: w' log_def do_record_failure_def emit_def lg)
      ultimately show ?thesis using r ev by blast
    qed
  qed
qed

lemma transfer_event_untouched: "key \<noteq> k \<Longrightarrow> transfer_event key e \<Longrightarrow> untouched k e"
  by (cases "(key, e)" rule: transfer_event.cases) auto

text \<open>What one employee's turn does to a key whose row has status success.\<close>

lemma transfer_one_success_key:
  assumes dn: "is_already_processed (ledger w) k"
    and run: "transfer_one sha256_hex env client per emp (ok, fail) w = (r, w')"
  shows "ledger w' k = ledger w k
    \<and> (\<exists>evs. trace w' = trace w @ evs \<and> list_all (untouched k) evs)
    \<and> (\<exists>ls. logs w' = logs w @ ls
          \<and> (0 < emp_amount_cents emp \<and> employee_key sha256_hex per emp = k
               \<longrightarrow> ls = [(INFO, AlreadyProcessed (name emp))]))
    \<and> (\<forall>ok' fail'. r = Inr (ok', fail') \<longrightarrow>
          (\<exists>oks. ok' = ok @ oks
            \<and> (0 < emp_amount_cents emp \<and> employee_key sha256_hex per emp = k
                 \<longrightarrow> oks = [name emp])))"
proof (cases "0 < emp_amount_cents emp")
  case False
  then have "emp_amount_cents emp \<le> 0" by simp
  from transfer_one_no_amount[OF this] run False show ?thesis
    by (auto simp: log_def)
next
  case pos: True
  let ?key = "make_idempotency_key sha256_hex (name emp) per (emp_amount_cents emp)"
  show ?thesis
  proof (cases "is_already_processed (ledger w) ?key")
    case True
    from transfer_one_already_processed[OF pos True] run show ?thesis
      by (auto simp: log_def)
  next
    case False
    with dn have ne: "?key \<noteq> k" by auto
    from transfer_one_processed[OF pos refl False run]
    consider (raised) e where "r = Inl e" "w' = w"
      | (went) evs fin ls where
          "trace w' = trace w @ Committed ?key Pending # evs @ fin"
          "list_all (transfer_event ?key) evs"
          "fin = [] \<or> fin = [Committed ?key Success] \<or> fin = [Committed ?key Failed]"
          "\<forall>k. k \<noteq> ?key \<longrightarrow> ledger w' k = ledger w k"
          "logs w' = logs w @ ls"
          "(\<exists>e. r = Inl e) \<or> r = Inr (ok @ [name emp], fail) \<or> r = Inr (ok, fail @ [name emp])"
      by blast
    then show ?thesis
    proof cases
      case raised
      then show ?thesis using ne by (simp add: employee_key_def)
    next
      case went
      have "list_all (untouched k) evs"
        using went(2) transfer_event_untouched[OF ne] by (auto simp: list_all_iff)
      with went(3) ne have "list_all (untouched k) (Committed ?key Pending # evs @ fin)"
        by auto
      with went(1) have "\<exists>evs. trace w' = trace w @ evs \<and> list_all (untouched k) evs"
        by blast
      moreover have "ledger w' k = ledger w k" using went(4) ne by simp
      ultimately show ?thesis using went(5,6) ne
        by (auto simp: employee_key_def)
    qed
  qed
qed

subsection \<open>The loop over the employees\<close>

lemma transfer_loop_success_key:
  assumes "is_already_processed (ledger w) k"
    and "transfer_loop sha256_hex env client per emps (ok, fail) w = (r, w')"
  shows "ledger w' k = ledger w k
    \<and> (\<exists>evs. trace w' = trace w @ evs \<and> list_all (untouched k) evs)
    \<and> (\<forall>ok' fail'. r = Inr (ok', fail') \<longrightarrow>
          (\<exists>ls oks. logs w' = logs w @ ls \<and> ok' = ok @ oks
             \<and> (\<forall>emp\<in>set emps.
                   0 < emp_amount_cents emp \<and> employee_key sha256_hex per emp = k
                   \<longrightarrow> (INFO, AlreadyProcessed (name emp)) \<in> set ls \<and> name emp \<in> set oks)))"
  using assms
proof (induction emps arbitrary: ok fail w)
  case Nil
  then show ?case by auto
next
  case (Cons emp emps)
  obtain r1 w1 where one: "transfer_one sha256_hex env client per emp (ok, fail) w = (r1, w1)"
    by (cases "transfer_one sha256_hex env client per emp (ok, fail) w")
  note h = transfer_one_success_key[OF Cons.prems(1) one]
  from h obtain evs1 where e1: "trace w1 = trace w @ evs1" "list_all (untouched k) evs1"
    by blast
  from h obtain ls1 where l1: "logs w1 = logs w @ ls1"
    "0 < emp_amount_cents emp \<and> employee_key sha256_hex per emp = k
       \<longrightarrow> ls1 = [(INFO, AlreadyProcessed (name emp))]"
    by blast
  from h have led1: "ledger w1 k = ledger w k" by blast
  show ?case
  proof (cases r1)
    case (Inl e)
    with Cons.prems(2) one have "r = Inl e" "w' = w1" by simp_all
    with e1 led1 show ?thesis by auto
  next
    case (Inr acc1)
    obtain ok1 fail1 where acc1: "acc1 = (ok1, fail1)" by (cases acc1)
    with h Inr obtain oks1 where o1: "ok1 = ok @ oks1"
      "0 < emp_amount_cents emp \<and> employee_key sha256_hex per emp = k \<longrightarrow> oks1 = [name emp]"
      by blast
    have done1: "is_already_processed (ledger w1) k"
      using Cons.prems(1) led1 by (simp add: is_already_processed_def)
    have rest: "transfer_loop sha256_hex env client per emps (ok1, fail1) w1 = (r, w')"
      using Cons.prems(2) one Inr acc1 by simp
    note ih = Cons.IH[OF done1 rest]
    from ih obtain evs2 where e2: "trace w' = trace w1 @ evs2" "list_all (untouched k) evs2"
      by blast
    have t: "\<exists>evs. trace w' = trace w @ evs \<and> list_all (untouched k) evs"
      using e1 e2 by (intro exI[of _ "evs1 @ evs2"]) simp
    have l: "ledger w' k = ledger w k" using ih led1 by simp
    have "\<exists>ls oks. logs w' = logs w @ ls \<and> ok' = ok @ oks
             \<and> (\<forall>emp\<in>set (emp # emps).
                   0 < emp_amount_cents emp \<and> employee_key sha256_hex per emp = k
                   \<longrightarrow> (INFO, AlreadyProcessed (name emp)) \<in> set ls \<and> name emp \<in> set oks)"
      if r: "r = Inr (ok', fail')" for ok' fail'
    proof -
      from ih r obtain ls2 oks2 where
        a: "logs w' = logs w1 @ ls2" "ok' = ok1 @ oks2"
        and b: "\<forall>emp\<in>set emps.
                   0 < emp_amount_cents emp \<and> employee_key sha256_hex per emp = k
                   \<longrightarrow> (INFO, AlreadyProcessed (name emp)) \<in> set ls2 \<and> name emp \<in> set oks2"
        by blast
      have "logs w' = logs w @ (ls1 @ ls2)" "ok' = ok @ (oks1 @ oks2)"
        using a l1(1) o1(1) by simp_all
      moreover have "\<forall>emp\<in>set (emp # emps).
                   0 < emp_amount_cents emp \<and> employee_key sha256_hex per emp = k
                   \<longrightarrow> (INFO, AlreadyProcessed (name emp)) \<in> set (ls1 @ ls2)
                       \<and> name emp \<in> set (oks1 @ oks2)"
        using b l1(2) o1(2) by auto
      ultimately show ?thesis by blast
    qed
    with t l show ?thesis by blast
  qed
qed

lemma transfer_loop_keeps_success:
  assumes "transfer_loop sha256_hex env client per emps acc w = (r, w')"
    and "ledger w k = Some row" and "status row = Success"
  shows "ledger w' k = Some row"
proof -
  have "is_already_processed (ledger w) k" using assms(2,3) by (simp add: is_already_processed_def)
  from transfer_loop_success_key[OF this, of sha256_hex env client per emps "fst acc" "snd acc" r w']
    assms(1,2)
  show ?thesis by simp
qed

subsection \<open>The order of the writes and the transfer requests\<close>

lemma submits_transfer_events:
  "list_all (transfer_event key) evs \<Longrightarrow> key \<in> S \<Longrightarrow>
   submits_after_pending S (evs @ evs') = submits_after_pending S evs'"
proof (induction evs)
  case Nil
  show ?case by simp
next
  case (Cons e evs)
  then show ?case
  proof (cases e)
    case (Sent req)
    with Cons show ?thesis by (cases req) auto
  qed auto
qed

lemma submits_append:
  "submits_after_pending S (xs @ ys)
   = (submits_after_pending S xs \<and> submits_after_pending (after_commits S xs) ys)"
proof (induction xs arbitrary: S)
  case Nil
  show ?case by simp
next
  case (Cons e xs)
  show ?case
  proof (cases e)
    case (Sent req)
    with Cons show ?thesis by (cases req) auto
  qed (use Cons in auto)
qed

lemma submits_request_events:
  "(\<And>p. req \<noteq> PostTransfer p) \<Longrightarrow> list_all (request_event req) evs \<Longrightarrow>
   submits_after_pending S evs"
proof (induction evs)
  case Nil
  show ?case by simp
next
  case (Cons e evs)
  then show ?case
  proof (cases e)
    case (Sent r)
    with Cons show ?thesis by (cases r) auto
  qed auto
qed

lemma transfer_one_submits:
  assumes "transfer_one sha256_hex env client per emp (ok, fail) w = (r, w')"
  shows "\<exists>evs. trace w' = trace w @ evs \<and> (\<forall>S. submits_after_pending S evs)"
proof (cases "0 < emp_amount_cents emp")
  case False
  then have "emp_amount_cents emp \<le> 0" by simp
  from transfer_one_no_amount[OF this] assms show ?thesis by (auto simp: log_def)
next
  case pos: True
  let ?key = "make_idempotency_key sha256_hex (name emp) per (emp_amount_cents emp)"
  show ?thesis
  proof (cases "is_already_processed (ledger w) ?key")
    case True
    from transfer_one_already_processed[OF pos True] assms show ?thesis
      by (auto simp: log_def)
  next
    case False
    from transfer_one_processed[OF pos refl False assms]
    consider (raised) "w' = w"
      | (went) evs fin where
          "trace w' = trace w @ Committed ?key Pending # evs @ fin"
          "list_all (transfer_event ?key) evs"
          "fin = [] \<or> fin = [Committed ?key Success] \<or> fin = [Committed ?key Failed]"
      by blast
    then show ?thesis
    proof cases
      case raised
      then show ?thesis by simp
    next
      case went
      have "submits_after_pending S (Committed ?key Pending # evs @ fin)" for S
        using went(2,3) submits_transfer_events[of ?key evs "insert ?key S" fin] by auto
      with went(1) show ?thesis by blast
    qed
  qed
qed

lemma transfer_loop_submits:
  "transfer_loop sha256_hex env client per emps acc w = (r, w') \<Longrightarrow>
   \<exists>evs. trace w' = trace w @ evs \<and> (\<forall>S. submits_after_pending S evs)"
proof (induction emps arbitrary: acc w)
  case Nil
  then show ?case by simp
next
  case (Cons emp emps)
  obtain ok fail where acc: "acc = (ok, fail)" by (cases acc)
  obtain r1 w1 where one: "transfer_one sha256_hex env client per emp (ok, fail) w = (r1, w1)"
    by (cases "transfer_one sha256_hex env client per emp (ok, fail) w")
  from transfer_one_submits[OF one] obtain evs1 where
    e1: "trace w1 = trace w @ evs1" "\<forall>S. submits_after_pending S evs1" by blast
  show ?case
  proof (cases r1)
    case (Inl e)
    with Cons.prems one acc have "w' = w1" by simp
    with e1 show ?thesis by blast
  next
    case (Inr acc1)
    with Cons.prems one acc have "transfer_loop sha256_hex env client per emps acc1 w1 = (r, w')"
      by simp
    from Cons.IH[OF this] obtain evs2 where
      e2: "trace w' = trace w1 @ evs2" "\<forall>S. submits_after_pending S evs2" by blast
    have "trace w' = trace w @ (evs1 @ evs2)" using e1 e2 by simp
    moreover have "\<forall>S. submits_after_pending S (evs1 @ evs2)"
      using e1(2) e2(2) by (simp add: submits_append)
    ultimately show ?thesis by blast
  qed
qed

lemma record_pending_status:
  "record_pending db now key nm per amt = Inr db' \<Longrightarrow>
   \<exists>row. db' key = Some row \<and> status row = Pending"
  by (auto simp: record_pending_def split: if_splits option.splits)

lemma pending_transfer_events:
  assumes "list_all (transfer_event key) evs"
    and "db key = Some row" "status row = Pending"
  shows "list_all pending_when_submitted (map (\<lambda>req. (req, db)) (sent_requests evs))"
  using assms(1)
proof (induction evs rule: sent_requests.induct)
  case (2 r evs)
  then show ?case using assms(2,3) by (cases r) auto
qed auto

lemma pending_request_events:
  assumes "list_all (request_event GetOrganization) evs"
  shows "list_all pending_when_submitted (map (\<lambda>req. (req, db)) (sent_requests evs))"
  using assms by (induction evs rule: sent_requests.induct) auto

lemma transfer_one_submitted:
  assumes run: "transfer_one sha256_hex env client per emp (ok, fail) w = (r, w')"
  shows "\<exists>evs rs. trace w' = trace w @ evs \<and> submitted w' = submitted w @ rs
     \<and> map fst rs = sent_requests evs \<and> list_all pending_when_submitted rs"
proof (cases "0 < emp_amount_cents emp")
  case False
  then have "emp_amount_cents emp \<le> 0" by simp
  from transfer_one_no_amount[OF this] run show ?thesis by (auto simp: log_def)
next
  case pos: True
  let ?key = "make_idempotency_key sha256_hex (name emp) per (emp_amount_cents emp)"
  show ?thesis
  proof (cases "is_already_processed (ledger w) ?key")
    case True
    from transfer_one_already_processed[OF pos True] run show ?thesis
      by (auto simp: log_def)
  next
    case new: False
    show ?thesis
    proof (cases "do_record_pending ?key (name emp) per (emp_amount_cents emp) w")
      case (Inl e)
      with pos new run show ?thesis by (auto simp add: transfer_one_def Let_def)
    next
      case (Inr w1)
      then obtain db where db: "record_pending (ledger w) (clock w) ?key (name emp) per
          (emp_amount_cents emp) = Inr db"
        and w1: "w1 = emit (Committed ?key Pending) (w\<lparr>ledger := db\<rparr>)"
        by (auto simp: do_record_pending_def split: sum.splits)
      from record_pending_status[OF db] obtain row where
        row: "db ?key = Some row" "status row = Pending" by blast
      let ?w1 = "log INFO (TransferStart (name emp) (iban_masked emp) (emp_amount_cents emp)) w1"
      obtain c w2 where ct: "create_transfer env client (name emp) (iban emp)
          (emp_amount_cents emp) per ?key ?w1 = (c, w2)"
        by (cases "create_transfer env client (name emp) (iban emp)
          (emp_amount_cents emp) per ?key ?w1")
      then have "net_step (transfer_event ?key) ?w1 w2" by (rule create_transfer_net_step)
      then obtain evs where
        t2: "trace w2 = trace w @ Committed ?key Pending # evs"
        and ev: "list_all (transfer_event ?key) evs"
        and s2: "submitted w2 = submitted w @ map (\<lambda>req. (req, db)) (sent_requests evs)"
        by (auto simp: net_step_def w1 emit_def log_def)
      note pend = pending_transfer_events[where db = db, OF ev row]
      have unf: "(case c of
            Inl e \<Rightarrow> (Inl e, w2)
          | Inr result \<Rightarrow>
              if success result then
                (Inr (ok @ [name emp], fail),
                 log INFO (TransferOk (name emp) (result_transfer_id result))
                   (do_record_success ?key (result_transfer_id result) w2))
              else
                (Inr (ok, fail @ [name emp]),
                 log ERROR (TransferFailed (name emp) (error result))
                   (do_record_failure ?key (error result) w2))) = (r, w')"
        using run pos new Inr ct by (simp add: transfer_one_def Let_def)
      have fin: "\<exists>fin. trace w' = trace w2 @ fin \<and> sent_requests fin = []
          \<and> submitted w' = submitted w2"
      proof (cases c)
        case (Inl e)
        with unf have "w' = w2" by simp
        then show ?thesis by simp
      next
        case (Inr result)
        with unf have
          "w' = log INFO (TransferOk (name emp) (result_transfer_id result))
                   (do_record_success ?key (result_transfer_id result) w2)
           \<or> w' = log ERROR (TransferFailed (name emp) (error result))
                   (do_record_failure ?key (error result) w2)"
          by (auto split: if_splits)
        then show ?thesis
          by (auto simp: log_def do_record_success_def do_record_failure_def emit_def)
      qed
      then obtain fin where f: "trace w' = trace w2 @ fin" "sent_requests fin = []"
        "submitted w' = submitted w2" by blast
      let ?evs = "Committed ?key Pending # evs @ fin"
      let ?rs = "map (\<lambda>req. (req, db)) (sent_requests evs)"
      have "trace w' = trace w @ ?evs" using f(1) t2 by simp
      moreover have "submitted w' = submitted w @ ?rs" using f(3) s2 by simp
      moreover have "map fst ?rs = sent_requests ?evs" using f(2) by (simp add: comp_def)
      ultimately show ?thesis using pend by blast
    qed
  qed
qed

lemma transfer_loop_submitted:
  "transfer_loop sha256_hex env client per emps acc w = (r, w') \<Longrightarrow>
   \<exists>evs rs. trace w' = trace w @ evs \<and> submitted w' = submitted w @ rs
     \<and> map fst rs = sent_requests evs \<and> list_all pending_when_submitted rs"
proof (induction emps arbitrary: acc w)
  case Nil
  then show ?case by simp
next
  case (Cons emp emps)
  obtain ok fail where acc: "acc = (ok, fail)" by (cases acc)
  obtain r1 w1 where one: "transfer_one sha256_hex env client per emp (ok, fail) w = (r1, w1)"
    by (cases "transfer_one sha256_hex env client per emp (ok, fail) w")
  from transfer_one_submitted[OF one] obtain evs1 rs1 where
    e1: "trace w1 = trace w @ evs1" "submitted w1 = submitted w @ rs1"
      "map fst rs1 = sent_requests evs1" "list_all pending_when_submitted rs1" by blast
  show ?case
  proof (cases r1)
    case (Inl e)
    with Cons.prems one acc have "w' = w1" by simp
    with e1 show ?thesis by blast
  next
    case (Inr acc1)
    with Cons.prems one acc have "transfer_loop sha256_hex env client per emps acc1 w1 = (r, w')"
      by simp
    from Cons.IH[OF this] obtain evs2 rs2 where
      e2: "trace w' = trace w1 @ evs2" "submitted w' = submitted w1 @ rs2"
      "map fst rs2 = sent_requests evs2" "list_all pending_when_submitted rs2" by blast
    have "trace w' = trace w @ (evs1 @ evs2)" "submitted w' = submitted w @ (rs1 @ rs2)"
      "map fst (rs1 @ rs2) = sent_requests (evs1 @ evs2)"
      "list_all pending_when_submitted (rs1 @ rs2)"
      using e1 e2 by simp_all
    then show ?thesis by blast
  qed
qed

subsection \<open>The whole run\<close>

lemma resolve_bank_account_id_net_step:
  assumes "resolve_bank_account_id env debit w = (r, w')"
  shows "net_step (request_event GetOrganization) w w'"
proof -
  obtain r1 w1 where rq: "request env GetOrganization False w = (r1, w1)"
    by (cases "request env GetOrganization False w")
  then have "net_step (request_event GetOrganization) w w1" by (rule request_net_step_eq)
  moreover have "w' = w1"
    using assms rq
    by (auto simp: resolve_bank_account_id_def split: sum.splits if_splits option.splits)
  ultimately show ?thesis by simp
qed

lemma new_qonto_client_net_step:
  assumes "new_qonto_client env w = (r, w')"
  shows "net_step (request_event GetOrganization) w w'"
proof (cases "missing_settings env = []")
  case False
  with assms show ?thesis by (simp add: new_qonto_client_def net_step_refl)
next
  case True
  obtain r1 w1 where rs: "resolve_bank_account_id env
      (getenv_stripped env ''QONTO_DEBIT_IBAN'') w = (r1, w1)"
    by (cases "resolve_bank_account_id env (getenv_stripped env ''QONTO_DEBIT_IBAN'') w")
  then have "net_step (request_event GetOrganization) w w1"
    by (rule resolve_bank_account_id_net_step)
  moreover have "w' = w1"
    using assms True rs by (auto simp: new_qonto_client_def split: sum.splits)
  ultimately show ?thesis by simp
qed

text \<open>
  The stages of \<open>payroll_process\<close>: up to the construction of the client only requests
  for the organisation are sent and the ledger is not written; then the run either ends
  (without a summary) or goes through the loop over the employees that \<open>process_pdf\<close>
  returned.
\<close>

lemma payroll_process_stages:
  assumes run: "payroll_process sha256_hex env csv pdf parg skip w0 = (r, w')"
    and per: "per = (case parg of None \<Rightarrow> current_month env | Some p \<Rightarrow> p)"
  shows "\<exists>w3. ledger w3 = ledger w0
      \<and> (\<exists>evs. trace w3 = trace w0 @ evs \<and> list_all (request_event GetOrganization) evs
             \<and> submitted w3
                 = submitted w0 @ map (\<lambda>req. (req, ledger w0)) (sent_requests evs))
      \<and> ((ledger w' = ledger w3 \<and> trace w' = trace w3 \<and> submitted w' = submitted w3
            \<and> (\<forall>lg sm. r \<noteq> Inr (LogReport lg (Some sm))))
          \<or> (\<exists>client emps res rl.
                process_pdf pdf (csv_employees csv) per [] = Inr (emps, res)
                \<and> transfer_loop sha256_hex env client per emps ([], []) w3 = (rl, w')
                \<and> (case rl of
                      Inl e \<Rightarrow> r = Inl e
                    | Inr acc \<Rightarrow>
                        r = Inr (LogReport (logs w')
                              (Some \<lparr>pdfs_saved = length (saved_files res),
                                     transfer_ok = fst acc, transfer_fail = snd acc\<rparr>)))))"
proof -
  let ?w = "w0\<lparr>logs := []\<rparr>"
  let ?G = "request_event GetOrganization"
  have early: ?thesis if "ledger w' = ledger w0" "trace w' = trace w0"
    "submitted w' = submitted w0" "\<forall>lg sm. r \<noteq> Inr (LogReport lg (Some sm))"
  proof -
    have "ledger w' = ledger w0
      \<and> (\<exists>evs. trace w' = trace w0 @ evs \<and> list_all ?G evs
             \<and> submitted w'
                 = submitted w0 @ map (\<lambda>req. (req, ledger w0)) (sent_requests evs))
      \<and> (ledger w' = ledger w' \<and> trace w' = trace w' \<and> submitted w' = submitted w'
            \<and> (\<forall>lg sm. r \<noteq> Inr (LogReport lg (Some sm))))"
      using that by simp
    then show ?thesis by blast
  qed
  show ?thesis
  proof (cases "csv_errors csv \<noteq> [] \<or> csv_employees csv = []")
    case True
    with run show ?thesis by (intro early) (auto simp: payroll_process_def Let_def split: if_splits)
  next
    case csv_ok: False
    let ?w1 = "log INFO PdfProcessing (log INFO (CsvLoaded (length (csv_employees csv))) ?w)"
    show ?thesis
    proof (cases "process_pdf pdf (csv_employees csv) per []")
      case (Inl e)
      with run csv_ok per show ?thesis
        by (intro early) (auto simp: payroll_process_def Let_def log_def)
    next
      case (Inr pr)
      obtain emps res where pr: "pr = (emps, res)" by (cases pr)
      let ?w2 = "log_pdf_result res ?w1"
      have l2: "ledger ?w2 = ledger w0" "trace ?w2 = trace w0" "submitted ?w2 = submitted w0"
        by (simp_all add: log_pdf_result_def log_def)
      show ?thesis
      proof (cases skip)
        case True
        with run csv_ok per Inr pr show ?thesis
          by (intro early) (auto simp: payroll_process_def Let_def log_def log_pdf_result_def)
      next
        case False
        obtain c w3 where nc: "new_qonto_client env ?w2 = (c, w3)"
          by (cases "new_qonto_client env ?w2")
        then have "net_step ?G ?w2 w3" by (rule new_qonto_client_net_step)
        then have s3: "ledger w3 = ledger w0"
          "\<exists>evs. trace w3 = trace w0 @ evs \<and> list_all ?G evs
             \<and> submitted w3
                 = submitted w0 @ map (\<lambda>req. (req, ledger w0)) (sent_requests evs)"
          using l2 by (auto simp: net_step_def)
        note unf = run[unfolded payroll_process_def Let_def, folded per, simplified,
            simplified csv_ok Inr pr False nc, simplified]
        show ?thesis
        proof (cases c)
          case (Inl e)
          with unf csv_ok nc have "ledger w' = ledger w3 \<and> trace w' = trace w3
            \<and> submitted w' = submitted w3
            \<and> (\<forall>lg sm. r \<noteq> Inr (LogReport lg (Some sm)))"
            by (auto simp: log_def split: if_splits)
          with s3 show ?thesis by blast
        next
          case cl: (Inr client)
          obtain rl w4 where tl: "transfer_loop sha256_hex env client per emps ([], []) w3 = (rl, w4)"
            by (cases "transfer_loop sha256_hex env client per emps ([], []) w3")
          with unf csv_ok nc cl have w4: "w4 = w'"
            and r: "case rl of
                      Inl e \<Rightarrow> r = Inl e
                    | Inr acc \<Rightarrow>
                        r = Inr (LogReport (logs w')
                              (Some \<lparr>pdfs_saved = length (saved_files res),
                                     transfer_ok = fst acc, transfer_fail = snd acc\<rparr>))"
            by (auto split: sum.splits if_splits)
          from Inr pr tl w4 r s3 show ?thesis by blast
        qed
      qed
    qed
  qed
qed

section \<open>The retry loop, step by step\<close>

definition transient :: "response \<Rightarrow> bool" where
  "transient resp = (status_code resp = 429 \<or> status_code resp \<ge> 500)"

lemma request_attempts_final:
  "send env req w = (Responded resp, w1) \<Longrightarrow> \<not> transient resp \<Longrightarrow> attempt \<le> retries \<Longrightarrow>
   request_attempts env req retries attempt w = (Inr resp, w1)"
  by (subst request_attempts.simps) (simp add: transient_def)

lemma request_attempts_retry:
  "send env req w = (Responded resp, w1) \<Longrightarrow> transient resp \<Longrightarrow>
   retry_wait resp attempt = Inr wait \<Longrightarrow> 0 \<le> wait \<Longrightarrow> attempt < retries \<Longrightarrow>
   request_attempts env req retries attempt w =
     request_attempts env req retries (attempt + 1)
       (slept (nat wait) (emit (RetryWarning attempt wait) w1))"
  by (subst request_attempts.simps) (simp add: transient_def sleep_def Let_def)

lemma request_attempts_give_up:
  "send env req w = (Responded resp, w1) \<Longrightarrow> transient resp \<Longrightarrow>
   retry_wait resp retries = Inr wait \<Longrightarrow>
   request_attempts env req retries retries w = (Inr resp, emit (RetryWarning retries wait) w1)"
  by (subst request_attempts.simps) (simp add: transient_def Let_def)

lemma request_attempts_exhausted:
  "retries < attempt \<Longrightarrow> request_attempts env req retries attempt w = (Inl ReqConnectionError, w)"
  by (subst request_attempts.simps) simp

lemma request_attempts_error:
  "send env req w = (out, w1) \<Longrightarrow> out = RaisedTimeout \<or> out = RaisedConnectionError \<Longrightarrow>
   attempt \<le> retries \<Longrightarrow>
   request_attempts env req retries attempt w =
     request_attempts env req retries (attempt + 1)
       (if attempt < retries then slept (2 ^ attempt) w1 else w1)"
  by (subst request_attempts.simps) auto


(*FRAME-END*)


section \<open>Properties of the ledger\<close>

text \<open>
  Claim C10. For a key that is in the ledger, \<open>record_pending\<close> sets the status to
  pending and \<open>updated_at\<close> to the current time and leaves the name, the period, the
  amount, the transfer id and \<open>created_at\<close> of the stored row as they are, whatever
  name, period and amount it is called with; the other rows do not change. (With an
  amount that does not fit an SQLite integer the call raises and writes nothing.)
\<close>

theorem record_pending_existing_key_frame:
  assumes "db key = Some row"
  shows "(sqlite_integer amount \<longrightarrow>
            (\<exists>db' row'. record_pending db now key nm per amount = Inr db'
               \<and> db' key = Some row'
               \<and> status row' = Pending \<and> updated_at row' = now
               \<and> employee_name row' = employee_name row
               \<and> period row' = period row
               \<and> amount_cents row' = amount_cents row
               \<and> transfer_id row' = transfer_id row
               \<and> created_at row' = created_at row
               \<and> (\<forall>k. k \<noteq> key \<longrightarrow> db' k = db k)))
       \<and> (\<not> sqlite_integer amount \<longrightarrow>
            record_pending db now key nm per amount = Inl OverflowError)"
  using assms by (simp add: record_pending_def)

definition example_row :: transfer_row where
  "example_row = \<lparr>employee_name = ''Jane Doe'', period = ''2026-02'', amount_cents = 100000,
     status = Success, transfer_id = Some ''tr-1'', created_at = 1, updated_at = 2\<rparr>"

theorem record_pending_existing_key_frame_witness:
  "\<exists>db' row'. record_pending [''k'' \<mapsto> example_row] 7 ''k'' ''John Roe'' ''2026-03'' 5 = Inr db'
     \<and> db' ''k'' = Some row'
     \<and> status row' = Pending \<and> updated_at row' = 7
     \<and> employee_name row' = ''Jane Doe''
     \<and> period row' = ''2026-02''
     \<and> amount_cents row' = 100000
     \<and> transfer_id row' = Some ''tr-1''
     \<and> created_at row' = 1"
  using record_pending_existing_key_frame
    [of "[''k'' \<mapsto> example_row]" "''k''" example_row 5 7 "''John Roe''" "''2026-03''"]
  by (auto simp add: sqlite_integer_def example_row_def)

text \<open>
  The ledger operations do not look at the status they overwrite: on a row whose status
  is success, \<open>record_pending\<close> sets pending, \<open>record_failure\<close> sets failed, and
  \<open>record_success\<close> replaces the transfer id.
\<close>

theorem success_row_overwritten:
  "map_option status
     ((case record_pending [''k'' \<mapsto> example_row] 7 ''k'' ''Jane Doe'' ''2026-02'' 100000 of
         Inl _ \<Rightarrow> Map.empty | Inr db' \<Rightarrow> db') ''k'') = Some Pending
   \<and> map_option status (record_failure [''k'' \<mapsto> example_row] 7 ''k'' ''declined'' ''k'')
       = Some Failed
   \<and> map_option transfer_id (record_success [''k'' \<mapsto> example_row] 7 ''k'' None ''k'')
       = Some None"
  by (simp add: record_pending_def record_failure_def record_success_def sqlite_integer_def
      example_row_def)


section \<open>An example run\<close>

text \<open>
  A bank that follows a script: for each request the outcomes of its first, second, ...
  sending, the last one repeated; every call takes no time.
\<close>

definition scripted_bank :: "(request \<Rightarrow> http_outcome list) \<Rightarrow> event list \<Rightarrow> http_outcome \<times> nat" where
  "scripted_bank script h =
     (case last h of
        Sent req \<Rightarrow>
          (let n = length (filter (\<lambda>e. e = Sent req) h)
           in case drop (min (n - 1) (length (script req) - 1)) (script req) of
                out # _ \<Rightarrow> (out, 0)
              | [] \<Rightarrow> (RaisedConnectionError, 0))
      | _ \<Rightarrow> (RaisedConnectionError, 0))"

definition example_response :: response where
  "example_response =
     \<lparr>status_code = 200, retry_after = NoRetryAfter,
      bank_accounts = Some [(''DE02120300000000202051'', ''account-1'')],
      proof_token = Some ''vop-1'', sca_session_token = [], transfer_ident = Some ''transfer-1'',
      sca_result = Some ''waiting'', mentions_idempotency = False, error_text = []\<rparr>"

definition example_settings :: "string \<Rightarrow> string option" where
  "example_settings =
     map_of [(''QONTO_LOGIN'', ''acme''), (''QONTO_SECRET_KEY'', ''secret''),
             (''QONTO_DEBIT_IBAN'', ''DE02120300000000202051''),
             (''QONTO_CLIENT_ID'', ''client''), (''QONTO_CLIENT_SECRET'', ''client-secret'')]"

text \<open>The bank answers the transfer request by the outcomes \<open>transfers\<close>.\<close>

definition example_env :: "(string \<Rightarrow> string option) \<Rightarrow> http_outcome list \<Rightarrow> environment" where
  "example_env settings transfers =
     \<lparr>getenv = settings,
      http = scripted_bank (\<lambda>req. case req of
                PostTransfer p \<Rightarrow> transfers
              | _ \<Rightarrow> [Responded example_response]),
      valid_token = (\<lambda>h. (Inr ''token'', 0)),
      current_month = ''2026-02''\<rparr>"

definition example_csv :: parse_result where
  "example_csv = \<lparr>csv_employees = [michael_richter], csv_errors = []\<rparr>"

definition example_pdf :: "page list option" where
  "example_pdf =
     Some [\<lparr>page_text = ''Lohnabrechnung Herr Richter Netto: 1.000,00'', write_ok = True\<rparr>]"

definition empty_world :: world where
  "empty_world = \<lparr>ledger = Map.empty, clock = 0, trace = [], logs = [], submitted = []\<rparr>"

definition created :: http_outcome where
  "created = Responded (example_response\<lparr>status_code := 201\<rparr>)"

definition unavailable :: http_outcome where
  "unavailable = Responded (example_response\<lparr>status_code := 503\<rparr>)"

lemma example_send_other:
  assumes "\<And>p. req \<noteq> PostTransfer p"
  shows "send (example_env settings transfers) req w
         = (Responded example_response, submit req w)"
  using assms
  by (cases req)
     (auto simp: send_def submit_def example_env_def scripted_bank_def Let_def tick_def emit_def)

lemma example_request_other:
  assumes "\<And>p. req \<noteq> PostTransfer p"
  shows "request_attempts (example_env settings transfers) req 3 1 w
         = (Inr example_response, submit req w)"
  by (rule request_attempts_final[OF example_send_other[OF assms]])
     (simp_all add: transient_def example_response_def)

lemma example_fetch_token:
  "fetch_token (example_env settings transfers) w = (Inr ''token'', emit TokenFetched w)"
  by (simp add: fetch_token_def example_env_def Let_def tick_def emit_def)

lemma example_request:
  assumes "\<And>p. req \<noteq> PostTransfer p"
  shows "request (example_env settings transfers) req False w
         = (Inr example_response, submit req w)"
    and "request (example_env settings transfers) req True w
         = (Inr example_response, submit req (emit TokenFetched w))"
  unfolding request_def
  by (simp_all only: example_fetch_token example_request_other[OF assms] if_True if_False
      prod.case sum.case)

lemma example_missing_settings: "missing_settings (example_env example_settings transfers) = []"
  by (simp add: missing_settings_def required_settings_def getenv_stripped_def example_env_def
      example_settings_def py_strip_def py_isspace_def whitespace_chars_def)

lemma example_debit_iban:
  "getenv_stripped (example_env example_settings transfers) ''QONTO_DEBIT_IBAN''
   = ''DE02120300000000202051''"
  by (simp add: getenv_stripped_def example_env_def
      example_settings_def py_strip_def py_isspace_def whitespace_chars_def)

lemma example_new_qonto_client:
  "\<exists>client. new_qonto_client (example_env example_settings transfers) w
     = (Inr client, submit GetOrganization w) \<and> bank_account_id client = ''account-1''"
  by (simp add: new_qonto_client_def example_missing_settings example_debit_iban
      resolve_bank_account_id_def example_request example_response_def)

definition paid_richter :: employee where
  "paid_richter = michael_richter\<lparr>page_index := 0, emp_amount_cents := 100000, pdf_saved := True\<rparr>"

definition example_pdf_result :: processing_result where
  "example_pdf_result =
     \<lparr>saved_files = [(''/lohn/richter'', ''202602_MRI.pdf'')], unmatched_pages = [], errors = []\<rparr>"

lemma example_process_pdf:
  "process_pdf example_pdf (csv_employees example_csv) ''2026-02'' []
   = Inr ([paid_richter], example_pdf_result)"
  by code_simp

lemma example_key:
  "employee_key id ''2026-02'' paid_richter = ''michael richter|2026-02|100000''"
  by code_simp


definition paid_world :: world where
  "paid_world = \<lparr>ledger = [''michael richter|2026-02|100000'' \<mapsto> example_row\<lparr>
                     employee_name := ''Michael Richter''\<rparr>],
                 clock = 5000, trace = [], logs = [], submitted = []\<rparr>"

text \<open>The example run, evaluated stage by stage.\<close>

definition example_client :: qonto_client where
  "example_client =
     \<lparr>login = ''acme'', secret = ''secret'', debit_iban = ''DE02120300000000202051'',
      client_id = ''client'', client_secret = ''client-secret'',
      base_url = ''https://thirdparty.qonto.com/v2'', bank_account_id = ''account-1''\<rparr>"

lemma example_new_client:
  "new_qonto_client (example_env example_settings transfers) w
     = (Inr example_client, submit GetOrganization w)"
  by (simp add: new_qonto_client_def example_missing_settings example_debit_iban
      resolve_bank_account_id_def example_request example_response_def example_client_def)
     (simp add: getenv_stripped_def example_env_def example_settings_def py_strip_def
      py_isspace_def whitespace_chars_def)

lemma example_csv_simps:
  "csv_errors example_csv = []" "csv_employees example_csv \<noteq> []"
  "length (csv_employees example_csv) = 1"
  by (simp_all add: example_csv_def)

lemma example_make_key:
  "make_idempotency_key id ''Michael Richter'' ''2026-02'' 100000
   = ''michael richter|2026-02|100000''"
  by code_simp

lemma paid_richter_simps:
  "name paid_richter = ''Michael Richter''" "emp_amount_cents paid_richter = 100000"
  "iban paid_richter = ''DE89370400440532013000''" "iban_masked paid_richter = ''DE89****3000''"
  by (simp_all add: paid_richter_def michael_richter_def)



text \<open>The transfer request of the example, and the row that \<open>record_pending\<close> writes.\<close>

definition example_post :: transfer_post where
  "example_post =
     \<lparr>idempotency_key = ''michael richter|2026-02|100000'', sca_header = None,
      vop_proof_token = ''vop-1'', debit_account = ''account-1'',
      credit_name = ''Michael Richter'', credit_iban = ''DE89370400440532013000'',
      post_amount_cents = 100000, reference_period = ''2026-02''\<rparr>"

definition pending_row :: transfer_row where
  "pending_row =
     \<lparr>employee_name = ''Michael Richter'', period = ''2026-02'', amount_cents = 100000,
      status = Pending, transfer_id = None, created_at = 0, updated_at = 0\<rparr>"

definition pending_ledger :: ledger where
  "pending_ledger = [''michael richter|2026-02|100000'' \<mapsto> pending_row]"

lemma example_send_transfer:
  "send (example_env settings transfers) (PostTransfer p) w
   = (case drop (min (length (filter (\<lambda>e. e = Sent (PostTransfer p)) (trace w)))
                     (length transfers - 1)) transfers of
        out # _ \<Rightarrow> out
      | [] \<Rightarrow> RaisedConnectionError,
      submit (PostTransfer p) w)"
  by (auto simp: send_def submit_def example_env_def scripted_bank_def Let_def tick_def emit_def
      split: list.splits)

lemma example_verify_payee:
  "verify_payee (example_env settings transfers) acct nm w
   = (Inr ''vop-1'', submit (PostVerifyPayee acct nm) (emit TokenFetched w))"
  by (simp add: verify_payee_def example_request example_response_def)

lemma example_request_created:
  "request (example_env settings [created]) (PostTransfer p) True w
   = (Inr (example_response\<lparr>status_code := 201\<rparr>), submit (PostTransfer p) (emit TokenFetched w))"
proof -
  have "send (example_env settings [created]) (PostTransfer p) w1
      = (Responded (example_response\<lparr>status_code := 201\<rparr>), submit (PostTransfer p) w1)" for w1
    by (simp add: example_send_transfer created_def)
  from request_attempts_final[OF this, of 1 3]
  show ?thesis
    by (simp add: request_def example_fetch_token transient_def example_response_def)
qed

definition first_logs :: "(level \<times> message) list" where
  "first_logs =
     [(INFO, CsvLoaded 1), (INFO, PdfProcessing),
      (INFO, PdfSaved (''/lohn/richter'', ''202602_MRI.pdf'')),
      (INFO, TransferStart ''Michael Richter'' ''DE89****3000'' 100000),
      (INFO, TransferOk ''Michael Richter'' (Some ''transfer-1''))]"

definition first_world :: world where
  "first_world =
     \<lparr>ledger = [''michael richter|2026-02|100000'' \<mapsto>
                 pending_row\<lparr>status := Success, transfer_id := Some ''transfer-1''\<rparr>],
      clock = 0,
      trace = [Sent GetOrganization,
               Committed ''michael richter|2026-02|100000'' Pending,
               TokenFetched,
               Sent (PostVerifyPayee ''DE89370400440532013000'' ''Michael Richter''),
               TokenFetched,
               Sent (PostTransfer example_post),
               Committed ''michael richter|2026-02|100000'' Success],
      logs = first_logs,
      submitted = [(GetOrganization, Map.empty),
                   (PostVerifyPayee ''DE89370400440532013000'' ''Michael Richter'',
                    pending_ledger),
                   (PostTransfer example_post, pending_ledger)]\<rparr>"

lemma example_pending:
  "do_record_pending ''michael richter|2026-02|100000'' ''Michael Richter'' ''2026-02'' 100000 w
   = Inr (emit (Committed ''michael richter|2026-02|100000'' Pending)
       (w\<lparr>ledger := (case ledger w ''michael richter|2026-02|100000'' of
            None \<Rightarrow> (ledger w)(''michael richter|2026-02|100000'' \<mapsto>
                pending_row\<lparr>created_at := clock w, updated_at := clock w\<rparr>)
          | Some row \<Rightarrow> (ledger w)(''michael richter|2026-02|100000'' \<mapsto>
                row\<lparr>status := Pending, updated_at := clock w\<rparr>))\<rparr>))"
  by (simp add: do_record_pending_def record_pending_def sqlite_integer_def pending_row_def
      split: option.splits)

lemma example_first_run:
  "payroll_process id (example_env example_settings [created]) example_csv example_pdf None
     False empty_world
   = (Inr (LogReport first_logs
            (Some \<lparr>pdfs_saved = 1, transfer_ok = [''Michael Richter''], transfer_fail = []\<rparr>)),
      first_world)"
proof -
  have cm: "current_month (example_env example_settings [created]) = ''2026-02''"
    by (simp add: example_env_def)
  have one: "transfer_one id (example_env example_settings [created]) example_client ''2026-02''
      paid_richter ([], []) w
    = (Inr ([''Michael Richter''], []),
       log INFO (TransferOk ''Michael Richter'' (Some ''transfer-1''))
         (do_record_success ''michael richter|2026-02|100000'' (Some ''transfer-1'')
           (submit (PostTransfer example_post) (emit TokenFetched
             (submit (PostVerifyPayee ''DE89370400440532013000'' ''Michael Richter'')
               (emit TokenFetched
                 (log INFO (TransferStart ''Michael Richter'' ''DE89****3000'' 100000)
                   (emit (Committed ''michael richter|2026-02|100000'' Pending)
                     (w\<lparr>ledger := [''michael richter|2026-02|100000'' \<mapsto>
                          pending_row\<lparr>created_at := clock w, updated_at := clock w\<rparr>]\<rparr>)))))))))"
    if "ledger w = Map.empty" for w
    using that
    by (simp add: transfer_one_def Let_def paid_richter_simps example_make_key
        is_already_processed_def example_pending create_transfer_def example_verify_payee
        post_transfer_def example_request_created example_client_def parse_transfer_response_def
        example_response_def example_post_def)
  show ?thesis
    unfolding payroll_process_def Let_def
    by (simp add: cm example_csv_simps example_process_pdf example_new_client one)
       (simp add: one submit_def emit_def log_pdf_result_def log_def empty_world_def
        do_record_success_def record_success_def example_pdf_result_def first_logs_def
        first_world_def pending_row_def pending_ledger_def)
qed


section \<open>Properties of a run of the orchestrator\<close>

text \<open>
  Claim C2, as the code has it. The operations of the ledger overwrite a row whatever
  its status (theorem \<open>success_row_overwritten\<close>). What keeps a row with status success
  as it is, is the orchestrator, which asks \<open>is_already_processed\<close> before it writes:
  whatever a run of \<open>payroll_process\<close> does and however it ends, a row that has status
  success when the run starts is the same row, in every field, when the run ends.
\<close>

theorem payroll_process_keeps_success_rows:
  assumes "payroll_process sha256_hex env csv pdf parg skip w0 = (r, w')"
    and "ledger w0 k = Some row" and "status row = Success"
  shows "ledger w' k = Some row"
proof -
  from payroll_process_stages[OF assms(1) refl] obtain w3 where
    l3: "ledger w3 = ledger w0"
    and c: "(ledger w' = ledger w3 \<and> trace w' = trace w3)
       \<or> (\<exists>client emps rl per.
             transfer_loop sha256_hex env client per emps ([], []) w3 = (rl, w'))"
    by blast
  from c show ?thesis
  proof
    assume "ledger w' = ledger w3 \<and> trace w' = trace w3"
    with l3 assms(2) show ?thesis by simp
  next
    assume "\<exists>client emps rl per.
      transfer_loop sha256_hex env client per emps ([], []) w3 = (rl, w')"
    then obtain client emps rl per where
      "transfer_loop sha256_hex env client per emps ([], []) w3 = (rl, w')" by blast
    then show ?thesis
      by (rule transfer_loop_keeps_success) (simp_all add: l3 assms(2,3))
  qed
qed

theorem payroll_process_keeps_success_rows_witness:
  "ledger (snd (payroll_process id (example_env example_settings [created]) example_csv
                  example_pdf None False paid_world))
      ''michael richter|2026-02|100000''
   = Some (example_row\<lparr>employee_name := ''Michael Richter''\<rparr>)"
  using payroll_process_keeps_success_rows
    [of id "example_env example_settings [created]" example_csv example_pdf None False paid_world
        "fst (payroll_process id (example_env example_settings [created]) example_csv
                  example_pdf None False paid_world)"
        "snd (payroll_process id (example_env example_settings [created]) example_csv
                  example_pdf None False paid_world)"
        "''michael richter|2026-02|100000''" "example_row\<lparr>employee_name := ''Michael Richter''\<rparr>"]
  by (simp add: paid_world_def example_row_def)

text \<open>
  Claim C3. In every run of \<open>payroll_process\<close>, however it ends, each transfer request
  handed to the network comes after a committed write of status pending for its key, and
  no other write for that key lies between the two; and at the moment a transfer request
  is handed over, the table of the ledger holds a row under its key with status pending.
  (\<open>rs\<close> are the requests of the run in the order of the history, each with the table it
  saw.)
\<close>

theorem pending_committed_before_submit:
  "\<exists>evs rs. trace (snd (payroll_process sha256_hex env csv pdf parg skip w0)) = trace w0 @ evs
         \<and> submits_after_pending {} evs
         \<and> submitted (snd (payroll_process sha256_hex env csv pdf parg skip w0))
             = submitted w0 @ rs
         \<and> map fst rs = sent_requests evs
         \<and> list_all pending_when_submitted rs"
proof -
  obtain r w' where run: "payroll_process sha256_hex env csv pdf parg skip w0 = (r, w')"
    by (cases "payroll_process sha256_hex env csv pdf parg skip w0")
  from payroll_process_stages[OF run refl] obtain w3 evs0 where
    t3: "trace w3 = trace w0 @ evs0" "list_all (request_event GetOrganization) evs0"
      "submitted w3 = submitted w0 @ map (\<lambda>req. (req, ledger w0)) (sent_requests evs0)"
    and c: "(trace w' = trace w3 \<and> submitted w' = submitted w3)
       \<or> (\<exists>client emps rl per.
             transfer_loop sha256_hex env client per emps ([], []) w3 = (rl, w'))"
    by blast
  let ?rs0 = "map (\<lambda>req. (req, ledger w0)) (sent_requests evs0)"
  have s0: "submits_after_pending S evs0" for S
    using t3(2) by (intro submits_request_events[of GetOrganization]) simp_all
  have p0: "list_all pending_when_submitted ?rs0"
    using t3(2) by (rule pending_request_events)
  have m0: "map fst ?rs0 = sent_requests evs0" by (simp add: comp_def)
  from c have "\<exists>evs rs. trace w' = trace w0 @ evs \<and> submits_after_pending {} evs
      \<and> submitted w' = submitted w0 @ rs \<and> map fst rs = sent_requests evs
      \<and> list_all pending_when_submitted rs"
  proof
    assume "trace w' = trace w3 \<and> submitted w' = submitted w3"
    with t3 s0 p0 m0 show ?thesis by auto
  next
    assume "\<exists>client emps rl per.
      transfer_loop sha256_hex env client per emps ([], []) w3 = (rl, w')"
    then obtain client emps rl per where
      tl: "transfer_loop sha256_hex env client per emps ([], []) w3 = (rl, w')" by blast
    from transfer_loop_submits[OF tl] obtain evs1 where
      a: "trace w' = trace w3 @ evs1" "\<forall>S. submits_after_pending S evs1" by blast
    from transfer_loop_submitted[OF tl] a(1) obtain rs1 where
      b: "submitted w' = submitted w3 @ rs1" "map fst rs1 = sent_requests evs1"
        "list_all pending_when_submitted rs1" by auto
    have "trace w' = trace w0 @ (evs0 @ evs1)"
      and "submits_after_pending {} (evs0 @ evs1)"
      and "submitted w' = submitted w0 @ (?rs0 @ rs1)"
      and "map fst (?rs0 @ rs1) = sent_requests (evs0 @ evs1)"
      and "list_all pending_when_submitted (?rs0 @ rs1)"
      using t3(1,3) s0 a b p0 m0 by (simp_all add: submits_append)
    then show ?thesis by blast
  qed
  with run show ?thesis by simp
qed

theorem pending_committed_before_submit_witness:
  "submitted (snd (payroll_process id (example_env example_settings [created]) example_csv
                     example_pdf None False empty_world))
     = [(GetOrganization, Map.empty),
        (PostVerifyPayee ''DE89370400440532013000'' ''Michael Richter'', pending_ledger),
        (PostTransfer example_post, pending_ledger)]
   \<and> list_all pending_when_submitted
         (submitted (snd (payroll_process id (example_env example_settings [created])
                            example_csv example_pdf None False empty_world)))
   \<and> submits_after_pending {}
         (trace (snd (payroll_process id (example_env example_settings [created])
                        example_csv example_pdf None False empty_world)))"
proof -
  have e: "trace empty_world = []" "submitted empty_world = []"
    by (simp_all add: empty_world_def)
  from pending_committed_before_submit
    [of id "example_env example_settings [created]" example_csv example_pdf None False
        empty_world]
  show ?thesis
    by (simp add: example_first_run e) (simp add: first_world_def)
qed



text \<open>
  Claim C5, as the code has it. The settings of the bank are only read when the client is
  built, after the documents have been processed. With a required setting missing and
  transfers not skipped, \<open>payroll_process\<close> does what a run with \<open>skip_transfers\<close> does
  (pages are matched and saved), except that its last log line is the configuration
  error; it writes nothing to the ledger, sends no request and gives no summary.
\<close>

theorem missing_settings_documents_only:
  assumes "missing_settings env \<noteq> []"
  shows "payroll_process sha256_hex env csv pdf parg False w0
     = (case payroll_process sha256_hex env csv pdf parg True w0 of
          (Inr (LogReport lg None), w) \<Rightarrow>
            (Inr (LogReport (butlast lg @ [(ERROR, ConfigMissing)]) None),
             w\<lparr>logs := butlast (logs w) @ [(ERROR, ConfigMissing)]\<rparr>)
        | other \<Rightarrow> other)
   \<and> ledger (snd (payroll_process sha256_hex env csv pdf parg False w0)) = ledger w0
   \<and> trace (snd (payroll_process sha256_hex env csv pdf parg False w0)) = trace w0
   \<and> (\<forall>lg sm. fst (payroll_process sha256_hex env csv pdf parg False w0)
         \<noteq> Inr (LogReport lg (Some sm)))"
  using assms
  by (auto simp: payroll_process_def Let_def new_qonto_client_def log_def log_pdf_result_def
      butlast_append split: sum.splits prod.splits)

lemma example_missing: "missing_settings (example_env Map.empty transfers) \<noteq> []"
  by (simp add: missing_settings_def required_settings_def getenv_stripped_def example_env_def
      py_strip_def)

theorem missing_settings_documents_only_witness:
  "ledger (snd (payroll_process id (example_env Map.empty [created]) example_csv example_pdf
                  None False empty_world)) = ledger empty_world
   \<and> trace (snd (payroll_process id (example_env Map.empty [created]) example_csv example_pdf
                  None False empty_world)) = trace empty_world"
  using missing_settings_documents_only[OF example_missing, where transfers1 = "[created]"
      and sha256_hex = id and csv = example_csv and pdf = example_pdf and parg = None
      and ?w0.0 = empty_world]
  by blast

text \<open>
  With every setting missing, the page of the example is matched and saved before the
  configuration error is reported.
\<close>

theorem missing_settings_pages_saved:
  "fst (payroll_process id (example_env Map.empty [created]) example_csv example_pdf None False
          empty_world)
   = Inr (LogReport
            [(INFO, CsvLoaded 1), (INFO, PdfProcessing),
             (INFO, PdfSaved (''/lohn/richter'', ''202602_MRI.pdf'')),
             (ERROR, ConfigMissing)]
            None)"
proof -
  have cm: "current_month (example_env Map.empty [created]) = ''2026-02''"
    by (simp add: example_env_def)
  show ?thesis
    unfolding payroll_process_def Let_def
    by (simp add: cm example_csv_simps example_process_pdf new_qonto_client_def example_missing)
       (simp add: log_pdf_result_def log_def empty_world_def example_pdf_result_def)
qed

(*TAIL*)

end
